theory Spec2Isabelle
  imports Main "HOL-Library.Sublist" "HOL-Library.Word" "HOL-Library.AList"
begin

section \<open>Go values and the string helpers of utils/str/str.go\<close>

text \<open>
  Go strings are byte strings; they are modelled as \<open>string\<close> (a list of \<open>char\<close>, one
  \<open>char\<close> per byte). An error value is modelled by its message.
\<close>

type_synonym error = string

text \<open>A call either panics or returns a value.\<close>

datatype 'a outcome = Panic | Return 'a

text \<open>
  A value of the empty interface \<open>interface{}\<close>, by dynamic type, with one constructor
  for every case of the type switch of \<open>ToString\<close>. The platform \<open>int\<close> and \<open>uint\<close>
  are taken as 64 bits wide. A float is carried as its IEEE bit pattern. A value
  implementing \<open>fmt.Stringer\<close> or \<open>error\<close> is carried as what a call of its method
  \<open>String()\<close> or \<open>Error()\<close> does: it returns a text, or it panics (as a method with a
  value receiver does when the interface holds a nil pointer). \<open>GoOther\<close> stands for a
  value of any other dynamic type (a map, a slice, a struct, a named type), identified by
  a tag.
\<close>

datatype go_value =
    GoNil
  | GoString string
  | GoBool bool
  | GoFloat64 "64 word"
  | GoFloat32 "32 word"
  | GoInt "64 word"
  | GoUint "64 word"
  | GoInt8 "8 word"
  | GoUint8 "8 word"
  | GoInt16 "16 word"
  | GoUint16 "16 word"
  | GoInt32 "32 word"
  | GoUint32 "32 word"
  | GoInt64 "64 word"
  | GoUint64 "64 word"
  | GoBytes string
  | GoStringer "string outcome"
  | GoError "error outcome"
  | GoOther nat

text \<open>
  The functions of the Go standard library and of packages outside this development whose
  results the code only passes on: float formatting (\<open>strconv.FormatFloat\<close> with format
  \<open>'f'\<close> and precision \<open>-1\<close>), \<open>json.Marshal\<close> (which returns the text or an error,
  or panics when a marshalling method of the value panics), and what
  \<open>fmt.Sprintf("%s", v)\<close> prints for a value that is neither a string, a byte slice, nor
  an error or a Stringer whose method returns.
\<close>

record golib =
  FormatFloat64 :: "64 word \<Rightarrow> string"
  FormatFloat32 :: "32 word \<Rightarrow> string"
  Marshal :: "go_value \<Rightarrow> (error + string) outcome"
  BadVerb :: "go_value \<Rightarrow> string"

subsection \<open>Decimal formatting: strconv.Itoa, FormatInt, FormatUint\<close>

definition digit_char :: "nat \<Rightarrow> char" where
  "digit_char d = ''0123456789'' ! (d mod 10)"

function FormatUint :: "nat \<Rightarrow> string" where
  "FormatUint n = (if n < 10 then [digit_char n] else FormatUint (n div 10) @ [digit_char n])"
  by pat_completeness auto
termination
  by (relation "measure (\<lambda>n. n)") auto

declare FormatUint.simps [simp del]

definition FormatInt :: "int \<Rightarrow> string" where
  "FormatInt i = (if i < 0 then CHR ''-'' # FormatUint (nat (- i)) else FormatUint (nat i))"

definition Itoa :: "int \<Rightarrow> string" where
  "Itoa i = FormatInt i"

subsection \<open>strings.Contains, strings.Replace\<close>

fun Contains :: "string \<Rightarrow> string \<Rightarrow> bool" where
  "Contains [] sub = (sub = [])"
| "Contains (c # cs) sub = (prefix sub (c # cs) \<or> Contains cs sub)"

text \<open>
  \<open>strings.Replace(s, old, new, n)\<close>: the first \<open>n\<close> non-overlapping occurrences of
  \<open>old\<close>, found from left to right, are replaced by \<open>new\<close>; a negative \<open>n\<close> means no
  limit. Every call in this development passes a non-empty \<open>old\<close>; for an empty \<open>old\<close>
  (where Go inserts \<open>new\<close> around every rune) the function is left as the identity.
\<close>

function Replace :: "string \<Rightarrow> string \<Rightarrow> string \<Rightarrow> int \<Rightarrow> string" where
  "Replace s old new n =
     (if old = [] \<or> n = 0 \<or> s = [] then s
      else if prefix old s then new @ Replace (drop (length old) s) old new (n - 1)
      else hd s # Replace (tl s) old new n)"
  by pat_completeness auto
termination
  by (relation "measure (\<lambda>(s, old, new, n). length s)") auto

declare Replace.simps [simp del]

subsection \<open>SprintfDict and ProcessVar\<close>

definition varPatternLeft :: string where
  "varPatternLeft = ''${''"

definition varPatternRight :: string where
  "varPatternRight = ''}''"

text \<open>
  \<open>fmt.Sprintf("%s", val)\<close>. The package \<open>fmt\<close> recovers from a panic of the method it
  calls and prints a text of its own in its place.
\<close>

fun Sprintf_s :: "golib \<Rightarrow> go_value \<Rightarrow> string" where
  "Sprintf_s L (GoString s) = s"
| "Sprintf_s L (GoBytes b) = b"
| "Sprintf_s L (GoError (Return e)) = e"
| "Sprintf_s L (GoStringer (Return s)) = s"
| "Sprintf_s L v = BadVerb L v"

definition ProcessVar :: "golib \<Rightarrow> string \<Rightarrow> string \<Rightarrow> go_value \<Rightarrow> string" where
  "ProcessVar L pattern key val =
     (let varPattern = varPatternLeft @ key @ varPatternRight
      in Replace pattern varPattern (Sprintf_s L val) (- 1))"

text \<open>
  A Go map is enumerated by \<open>range\<close> in an order the runtime chooses. A dictionary is
  modelled as the list of its entries in the order of that enumeration; its keys are
  distinct.
\<close>

type_synonym dict = "(string \<times> go_value) list"

definition SprintfDict :: "golib \<Rightarrow> string \<Rightarrow> dict \<Rightarrow> string" where
  "SprintfDict L pattern d = foldl (\<lambda>result (key, val). ProcessVar L result key val) pattern d"

subsection \<open>ToString\<close>

text \<open>
  \<open>ToString\<close> returns a text, or panics where the method it calls on the value or
  \<open>json.Marshal\<close> panics: it does not recover.
\<close>

fun ToString :: "golib \<Rightarrow> go_value \<Rightarrow> string outcome" where
  "ToString L GoNil = Return []"
| "ToString L (GoString v) = Return v"
| "ToString L (GoBool v) = Return (if v then ''true'' else ''false'')"
| "ToString L (GoFloat64 ft) = Return (FormatFloat64 L ft)"
| "ToString L (GoFloat32 ft) = Return (FormatFloat32 L ft)"
| "ToString L (GoInt v) = Return (Itoa (sint v))"
| "ToString L (GoUint v) = Return (Itoa (sint v))"
| "ToString L (GoInt8 v) = Return (Itoa (sint v))"
| "ToString L (GoUint8 v) = Return (Itoa (uint v))"
| "ToString L (GoInt16 v) = Return (Itoa (sint v))"
| "ToString L (GoUint16 v) = Return (Itoa (uint v))"
| "ToString L (GoInt32 v) = Return (Itoa (sint v))"
| "ToString L (GoUint32 v) = Return (Itoa (uint v))"
| "ToString L (GoInt64 v) = Return (FormatInt (sint v))"
| "ToString L (GoUint64 v) = Return (FormatUint (unat v))"
| "ToString L (GoBytes v) = Return v"
| "ToString L (GoStringer v) = v"
| "ToString L (GoError v) = v"
| "ToString L (GoOther t) =
     (case Marshal L (GoOther t) of
        Panic \<Rightarrow> Panic
      | Return (Inr newValue) \<Rightarrow> Return newValue
      | Return (Inl err) \<Rightarrow> Return [])"

subsection \<open>CheckHasVar and ConvertDollarPlaceholder\<close>

definition CheckHasVar :: "string \<Rightarrow> bool" where
  "CheckHasVar str = (Contains str ''${'' \<and> Contains str ''}'')"

text \<open>
  Facts for the termination of the loop of \<open>ConvertDollarPlaceholder\<close>: a decimal
  numeral contains no question mark, and replacing the first occurrence of a character
  by a text without it lowers the number of its occurrences.
\<close>

lemma digit_char_digit: "digit_char d \<in> set ''0123456789''"
  unfolding digit_char_def by (rule nth_mem) simp

lemma digit_char_not_qmark: "CHR ''?'' \<noteq> digit_char d"
  using digit_char_digit [of d] by auto

lemma FormatUint_no_qmark: "CHR ''?'' \<notin> set (FormatUint n)"
proof (induction n rule: FormatUint.induct)
  case (1 n)
  show ?case
  proof (cases "n < 10")
    case True
    then show ?thesis
      by (subst FormatUint.simps) (simp add: digit_char_not_qmark)
  next
    case False
    with 1 show ?thesis
      by (subst FormatUint.simps) (simp add: digit_char_not_qmark)
  qed
qed

lemma Contains_single: "Contains s [c] = (c \<in> set s)"
  by (induction s) auto

lemma Replace_Nil: "Replace [] old new n = []"
  by (subst Replace.simps) simp

lemma Replace_zero: "Replace s old new 0 = s"
  by (subst Replace.simps) simp

lemma Replace_hit:
  "old \<noteq> [] \<Longrightarrow> n \<noteq> 0 \<Longrightarrow> prefix old (c # cs) \<Longrightarrow>
   Replace (c # cs) old new n = new @ Replace (drop (length old) (c # cs)) old new (n - 1)"
  by (subst Replace.simps) simp

lemma Replace_miss:
  "old \<noteq> [] \<Longrightarrow> n \<noteq> 0 \<Longrightarrow> \<not> prefix old (c # cs) \<Longrightarrow>
   Replace (c # cs) old new n = c # Replace cs old new n"
  by (subst Replace.simps) simp

lemma count_qmark_Replace:
  "c \<in> set s \<Longrightarrow> c \<notin> set new \<Longrightarrow>
   length (filter (\<lambda>x. x = c) (Replace s [c] new 1)) < length (filter (\<lambda>x. x = c) s)"
proof (induction s)
  case Nil
  then show ?case by simp
next
  case (Cons a s)
  show ?case
  proof (cases "a = c")
    case True
    have "filter (\<lambda>x. x = c) new = []"
      using Cons.prems(2) by (auto simp: filter_empty_conv)
    with True show ?thesis
      by (simp add: Replace_hit Replace_zero)
  next
    case False
    with Cons show ?thesis
      by (simp add: Replace_miss)
  qed
qed

text \<open>
  The loop of \<open>ConvertDollarPlaceholder\<close>, with the counter \<open>n\<close>: while the statement
  contains a question mark, its first one is replaced by \<open>$n\<close>. The counter never
  exceeds the length of the statement plus one, so it is modelled without a width.
\<close>

function convert_loop :: "string \<Rightarrow> nat \<Rightarrow> string" where
  "convert_loop sql n =
     (if Contains sql ''?''
      then convert_loop (Replace sql ''?'' (CHR ''$'' # FormatUint n) 1) (n + 1)
      else sql)"
  by pat_completeness auto
termination
proof (relation "measure (\<lambda>(sql, n). length (filter (\<lambda>x. x = CHR ''?'') sql))")
  show "wf (measure (\<lambda>(sql, n). length (filter (\<lambda>x. x = CHR ''?'') sql)))"
    by simp
next
  fix sql :: string and n :: nat
  assume "Contains sql ''?''"
  then have "CHR ''?'' \<in> set sql"
    by (simp add: Contains_single)
  moreover have "CHR ''?'' \<notin> set (CHR ''$'' # FormatUint n)"
    by (simp add: FormatUint_no_qmark)
  ultimately have "length (filter (\<lambda>x. x = CHR ''?'') (Replace sql ''?'' (CHR ''$'' # FormatUint n) 1))
      < length (filter (\<lambda>x. x = CHR ''?'') sql)"
    by (rule count_qmark_Replace)
  then show "((Replace sql ''?'' (CHR ''$'' # FormatUint n) 1, n + 1), (sql, n))
      \<in> measure (\<lambda>(sql, n). length (filter (\<lambda>x. x = CHR ''?'') sql))"
    by simp
qed

declare convert_loop.simps [simp del]

definition ConvertDollarPlaceholder :: "string \<Rightarrow> string \<Rightarrow> string" where
  "ConvertDollarPlaceholder sql dbType =
     (if dbType = ''postgres'' then convert_loop sql 1 else sql)"

text \<open>
  The result as described in words: going through the statement from left to right,
  the question marks are numbered from \<open>n\<close> on, and each is replaced by a dollar sign
  followed by its number in decimal.
\<close>

fun dollar_numbered :: "nat \<Rightarrow> string \<Rightarrow> string" where
  "dollar_numbered n [] = []"
| "dollar_numbered n (c # cs) =
     (if c = CHR ''?'' then CHR ''$'' # FormatUint n @ dollar_numbered (n + 1) cs
      else c # dollar_numbered n cs)"

text \<open>
  A library instance for evaluating the functions on examples; the examples use values
  for which its entries are never consulted.
\<close>

definition sample_golib :: golib where
  "sample_golib = \<lparr>FormatFloat64 = (\<lambda>_. []), FormatFloat32 = (\<lambda>_. []),
     Marshal = (\<lambda>_. Return (Inl ''json: unsupported'')), BadVerb = (\<lambda>_. ''%!s(?)'')\<rparr>"

subsection \<open>Patterns as sequences of characters and placeholders\<close>

text \<open>
  A pattern read as a sequence of tokens: a single character, or a placeholder
  \<open>${name}\<close>. \<open>render\<close> gives the text of the pattern. A token is plain when it is a
  character other than the dollar sign, or a placeholder whose name contains neither a
  dollar sign nor a closing brace.
\<close>

datatype tok = Lit char | Var string

fun render_tok :: "tok \<Rightarrow> string" where
  "render_tok (Lit c) = [c]"
| "render_tok (Var k) = ''${'' @ k @ ''}''"

definition render :: "tok list \<Rightarrow> string" where
  "render toks = concat (map render_tok toks)"

fun wf_tok :: "tok \<Rightarrow> bool" where
  "wf_tok (Lit c) = (c \<noteq> CHR ''$'')"
| "wf_tok (Var k) = (CHR ''$'' \<notin> set k \<and> CHR ''}'' \<notin> set k)"

text \<open>Replacing the placeholders of one name, and of every name of a map at once.\<close>

fun subst_tok :: "string \<Rightarrow> string \<Rightarrow> tok \<Rightarrow> tok list" where
  "subst_tok k new (Lit c) = [Lit c]"
| "subst_tok k new (Var k') = (if k' = k then map Lit new else [Var k'])"

fun fill_tok :: "golib \<Rightarrow> (string \<rightharpoonup> go_value) \<Rightarrow> tok \<Rightarrow> tok list" where
  "fill_tok L m (Lit c) = [Lit c]"
| "fill_tok L m (Var k) = (case m k of Some v \<Rightarrow> map Lit (Sprintf_s L v) | None \<Rightarrow> [Var k])"

definition fill :: "golib \<Rightarrow> (string \<rightharpoonup> go_value) \<Rightarrow> tok list \<Rightarrow> tok list" where
  "fill L m toks = concat (map (fill_tok L m) toks)"

text \<open>
  A dictionary entry is plain when its key contains neither a dollar sign nor a closing
  brace and the text printed for its value contains no dollar sign.
\<close>

definition plain_entry :: "golib \<Rightarrow> string \<times> go_value \<Rightarrow> bool" where
  "plain_entry L e = (CHR ''$'' \<notin> set (fst e) \<and> CHR ''}'' \<notin> set (fst e)
     \<and> CHR ''$'' \<notin> set (Sprintf_s L (snd e)))"

section \<open>The engine configuration of api/types/config.go\<close>

text \<open>
  \<open>time.Duration\<close> is a signed 64-bit count of nanoseconds. A function value or an
  object behind an interface that the configuration only stores (a callback, the
  components registry, the parser) is modelled by a tag; \<open>None\<close> is the nil value.
\<close>

type_synonym Duration = "64 word"

definition Millisecond :: Duration where
  "Millisecond = 1000000"

definition MaxInt32 :: int where
  "MaxInt32 = 2147483647"

text \<open>
  \<open>pool.WorkerPool\<close>, as far as this file uses it: the field \<open>MaxWorkersCount\<close> and
  whether \<open>Start\<close> has been called.
\<close>

record WorkerPool =
  MaxWorkersCount :: int
  started :: bool

definition Start :: "WorkerPool \<Rightarrow> WorkerPool" where
  "Start wp = wp\<lparr>started := True\<rparr>"

datatype Pool = WorkerPoolRef WorkerPool | OtherPool nat

datatype Logger = DefaultLogger | OtherLogger nat

record Config =
  OnDebug :: "nat option"
  OnEnd :: "nat option"
  JsMaxExecutionTime :: Duration
  Pool :: "Pool option"
  ComponentsRegistry :: "nat option"
  Parser :: "nat option"
  Logger :: "Logger option"

text \<open>An option updates the configuration it is given and returns an error or nil.\<close>

type_synonym Option = "Config \<Rightarrow> Config \<times> error option"

definition NewConfig :: "Option list \<Rightarrow> Config" where
  "NewConfig opts =
     foldl (\<lambda>c opt. fst (opt c))
       \<lparr>OnDebug = None, OnEnd = None, JsMaxExecutionTime = Millisecond * 2000, Pool = None,
        ComponentsRegistry = None, Parser = None, Logger = Some DefaultLogger\<rparr>
       opts"

definition DefaultPool :: Pool where
  "DefaultPool = WorkerPoolRef (Start \<lparr>MaxWorkersCount = MaxInt32, started = False\<rparr>)"

definition WithComponentsRegistry :: "nat \<Rightarrow> Option" where
  "WithComponentsRegistry componentsRegistry c = (c\<lparr>ComponentsRegistry := Some componentsRegistry\<rparr>, None)"

definition WithOnDebug :: "nat \<Rightarrow> Option" where
  "WithOnDebug onDebug c = (c\<lparr>OnDebug := Some onDebug\<rparr>, None)"

definition WithOnEnd :: "nat \<Rightarrow> Option" where
  "WithOnEnd onEnd c = (c\<lparr>OnEnd := Some onEnd\<rparr>, None)"

definition WithPool :: "Pool \<Rightarrow> Option" where
  "WithPool pool c = (c\<lparr>Pool := Some pool\<rparr>, None)"

definition WithDefaultPool :: Option where
  "WithDefaultPool c =
     (let wp = Start \<lparr>MaxWorkersCount = MaxInt32, started = False\<rparr>
      in (c\<lparr>Pool := Some (WorkerPoolRef wp)\<rparr>, None))"

definition WithJsMaxExecutionTime :: "Duration \<Rightarrow> Option" where
  "WithJsMaxExecutionTime jsMaxExecutionTime c = (c\<lparr>JsMaxExecutionTime := jsMaxExecutionTime\<rparr>, None)"

definition WithParser :: "nat \<Rightarrow> Option" where
  "WithParser parser c = (c\<lparr>Parser := Some parser\<rparr>, None)"

definition WithLogger :: "Logger \<Rightarrow> Option" where
  "WithLogger logger c = (c\<lparr>Logger := Some logger\<rparr>, None)"

section \<open>The database client node (DbClientNode)\<close>

subsection \<open>strings.Fields\<close>

text \<open>
  \<open>strings.Fields\<close> splits a string around runs of white space, as \<open>unicode.IsSpace\<close>
  defines it. \<open>white_space\<close> lists the UTF-8 encodings of the white space runes: tab,
  line feed, vertical tab, form feed, carriage return, space, U+0085, U+00A0, U+1680,
  U+2000 to U+200A, U+2028, U+2029, U+202F, U+205F and U+3000. The first byte of each
  is never a continuation byte of UTF-8, so a scan over the bytes finds these encodings
  at the places where the decoding of runes finds the runes, also in a string that is
  not valid UTF-8.
\<close>

definition white_space :: "string list" where
  "white_space =
     [[CHR 0x09], [CHR 0x0A], [CHR 0x0B], [CHR 0x0C], [CHR 0x0D], [CHR 0x20],
      [CHR 0xC2, CHR 0x85], [CHR 0xC2, CHR 0xA0],
      [CHR 0xE1, CHR 0x9A, CHR 0x80],
      [CHR 0xE2, CHR 0x80, CHR 0x80], [CHR 0xE2, CHR 0x80, CHR 0x81],
      [CHR 0xE2, CHR 0x80, CHR 0x82], [CHR 0xE2, CHR 0x80, CHR 0x83],
      [CHR 0xE2, CHR 0x80, CHR 0x84], [CHR 0xE2, CHR 0x80, CHR 0x85],
      [CHR 0xE2, CHR 0x80, CHR 0x86], [CHR 0xE2, CHR 0x80, CHR 0x87],
      [CHR 0xE2, CHR 0x80, CHR 0x88], [CHR 0xE2, CHR 0x80, CHR 0x89],
      [CHR 0xE2, CHR 0x80, CHR 0x8A],
      [CHR 0xE2, CHR 0x80, CHR 0xA8], [CHR 0xE2, CHR 0x80, CHR 0xA9],
      [CHR 0xE2, CHR 0x80, CHR 0xAF],
      [CHR 0xE2, CHR 0x81, CHR 0x9F],
      [CHR 0xE3, CHR 0x80, CHR 0x80]]"

text \<open>The number of bytes of the white space rune at the head of a string, or 0.\<close>

definition space_width :: "string \<Rightarrow> nat" where
  "space_width s = (case find (\<lambda>e. prefix e s) white_space of None \<Rightarrow> 0 | Some e \<Rightarrow> length e)"

text \<open>\<open>fields_from w s\<close>: the fields of \<open>s\<close>, where \<open>w\<close> is the field begun so far.\<close>

function fields_from :: "string \<Rightarrow> string \<Rightarrow> string list" where
  "fields_from w s =
     (if s = [] then (if w = [] then [] else [w])
      else if 0 < space_width s
        then (if w = [] then fields_from [] (drop (space_width s) s)
              else w # fields_from [] (drop (space_width s) s))
      else fields_from (w @ [hd s]) (tl s))"
  by pat_completeness auto
termination
  by (relation "measure (\<lambda>(w, s). length s)") auto

declare fields_from.simps [simp del]

definition Fields :: "string \<Rightarrow> string list" where
  "Fields s = fields_from [] s"

text \<open>A string is blank when it is empty or consists of white space runes only.\<close>

function blank :: "string \<Rightarrow> bool" where
  "blank s =
     (if s = [] then True
      else if space_width s = 0 then False
      else blank (drop (space_width s) s))"
  by pat_completeness auto
termination
  by (relation "measure length") auto

declare blank.simps [simp del]

subsection \<open>Messages, continuation calls and outcomes\<close>

text \<open>
  A message, with the two parts the node reads and writes: the payload and the
  metadata. \<open>PutValue\<close> stores a value under a key of the metadata.
\<close>

record RuleMsg =
  Data :: string
  Metadata :: dict

definition PutValue :: "RuleMsg \<Rightarrow> string \<Rightarrow> string \<Rightarrow> RuleMsg" where
  "PutValue msg key val = msg\<lparr>Metadata := AList.update key (GoString val) (Metadata msg)\<rparr>"

text \<open>
  The context is modelled by the list of calls a node makes to its continuation
  primitives, in the order of the calls.
\<close>

datatype tell =
    TellSuccess RuleMsg
  | TellFailure RuleMsg error
  | TellNext RuleMsg string

subsection \<open>Node state and the database\<close>

definition SELECT :: string where "SELECT = ''SELECT''"
definition INSERT :: string where "INSERT = ''INSERT''"
definition DELETE :: string where "DELETE = ''DELETE''"
definition UPDATE :: string where "UPDATE = ''UPDATE''"

definition rowsAffectedKey :: string where "rowsAffectedKey = ''rowsAffected''"
definition lastInsertIdKey :: string where "lastInsertIdKey = ''lastInsertId''"

record DbClientNodeConfiguration =
  Sql :: string
  Params :: "go_value list"
  GetOne :: bool
  PoolSize :: int
  DbType :: string
  Dsn :: string

text \<open>
  A handle \<open>*sql.DB\<close>: which database it stands for, and the arguments of the last calls
  of \<open>SetMaxOpenConns\<close> and \<open>SetMaxIdleConns\<close> on it.
\<close>

record DB =
  handle :: nat
  MaxOpenConns :: "int option"
  MaxIdleConns :: "int option"

record DbClientNode =
  config :: DbClientNodeConfiguration
  db :: "DB option"
  opType :: string
  paramsHasVar :: bool

text \<open>
  The result of \<open>Exec\<close>: what \<open>RowsAffected\<close> returns on it (the code reads its number
  only when the error is nil), and the number and the error that \<open>LastInsertId\<close>
  returns on it (the code reads the number and drops the error).
\<close>

record sql_Result =
  RowsAffected :: "error + 64 word"
  LastInsertId :: "64 word \<times> error option"

text \<open>
  The configuration bag of a node, and the world outside the node: the decoder
  \<open>maps.Map2Struct\<close> (which fills a configuration record from the bag), \<open>sql.Open\<close>
  (driver name, data source name), \<open>Ping\<close> and \<open>Exec\<close> on a handle,
  \<open>strings.ToUpper\<close>, and the method \<open>query\<close> of the node on a handle, which runs a
  statement and collects the rows of its result; \<open>query\<close> is taken by what it returns.
\<close>

type_synonym Configuration = "string \<rightharpoonup> go_value"

record sqlenv =
  Map2Struct :: "Configuration \<Rightarrow> DbClientNodeConfiguration \<Rightarrow> DbClientNodeConfiguration \<times> error option"
  sql_Open :: "string \<Rightarrow> string \<Rightarrow> error + DB"
  Ping :: "DB \<Rightarrow> error option"
  ToUpper :: "string \<Rightarrow> string"
  Exec :: "DB \<Rightarrow> string \<Rightarrow> go_value list \<Rightarrow> error + sql_Result"
  query_rows :: "DB \<Rightarrow> string \<Rightarrow> go_value list \<Rightarrow> bool \<Rightarrow> go_value \<times> error option"

text \<open>Go's integer division by two, which rounds towards zero.\<close>

definition half :: "int \<Rightarrow> int" where
  "half n = (if n < 0 then - ((- n) div 2) else n div 2)"

subsection \<open>Init\<close>

text \<open>
  \<open>Init\<close> returns the node as it has left it, with the error (or nil); or it panics,
  where \<open>words[0]\<close> is read from an empty slice.
\<close>

definition Init :: "sqlenv \<Rightarrow> Configuration \<Rightarrow> DbClientNode \<Rightarrow> (DbClientNode \<times> error option) outcome" where
  "Init E configuration x =
     (case Map2Struct E configuration (config x) of
        (c0, Some err) \<Rightarrow> Return (x\<lparr>config := c0\<rparr>, Some err)
      | (c0, None) \<Rightarrow>
          (let c1 = (if DbType c0 = [] then c0\<lparr>DbType := ''mysql''\<rparr> else c0) in
           case sql_Open E (DbType c1) (Dsn c1) of
             Inl err \<Rightarrow> Return (x\<lparr>config := c1, db := None\<rparr>, Some err)
           | Inr d0 \<Rightarrow>
               (let d = d0\<lparr>MaxOpenConns := Some (PoolSize c1), MaxIdleConns := Some (half (PoolSize c1))\<rparr>;
                    err = Ping E d;
                    words = Fields (Sql c1)
                in case words of
                     [] \<Rightarrow> Panic
                   | w # ws \<Rightarrow>
                       (let op = ToUpper E w;
                            err' = (if op = SELECT \<or> op = UPDATE \<or> op = INSERT \<or> op = DELETE then err
                                    else Some (''unsupported sql statement: '' @ Sql c1));
                            hasVar = (if list_ex (\<lambda>item. case item of GoString v \<Rightarrow> CheckHasVar v | _ \<Rightarrow> False) (Params c1)
                                      then True else paramsHasVar x);
                            c2 = c1\<lparr>Sql := ConvertDollarPlaceholder (Sql c1) (DbType c1)\<rparr>
                        in Return (\<lparr>config = c2, db = Some d, opType = op, paramsHasVar = hasVar\<rparr>, err')))))"

subsection \<open>OnMsg and the four statement methods\<close>

text \<open>A method called on a nil handle panics.\<close>

definition query :: "sqlenv \<Rightarrow> DbClientNode \<Rightarrow> string \<Rightarrow> go_value list \<Rightarrow> bool \<Rightarrow> (go_value \<times> error option) outcome" where
  "query E x sqlStr params getOne =
     (case db x of None \<Rightarrow> Panic | Some d \<Rightarrow> Return (query_rows E d sqlStr params getOne))"

definition update :: "sqlenv \<Rightarrow> DbClientNode \<Rightarrow> string \<Rightarrow> go_value list \<Rightarrow> (64 word \<times> error option) outcome" where
  "update E x sqlStr params =
     (case db x of None \<Rightarrow> Panic
      | Some d \<Rightarrow> Return
          (case Exec E d sqlStr params of
             Inl err \<Rightarrow> (0, Some err)
           | Inr result \<Rightarrow>
               (case RowsAffected result of
                  Inl err \<Rightarrow> (0, Some err)
                | Inr rowsAffected \<Rightarrow> (rowsAffected, None))))"

definition insert_row :: "sqlenv \<Rightarrow> DbClientNode \<Rightarrow> string \<Rightarrow> go_value list \<Rightarrow> (64 word \<times> 64 word \<times> error option) outcome" where
  "insert_row E x sqlStr params =
     (case db x of None \<Rightarrow> Panic
      | Some d \<Rightarrow> Return
          (case Exec E d sqlStr params of
             Inl err \<Rightarrow> (0, 0, Some err)
           | Inr result \<Rightarrow>
               (case RowsAffected result of
                  Inl err \<Rightarrow> (0, 0, Some err)
                | Inr rowsAffected \<Rightarrow>
                    (let lastInsertId = fst (LastInsertId result)
                     in (rowsAffected, lastInsertId, None)))))"

definition delete :: "sqlenv \<Rightarrow> DbClientNode \<Rightarrow> string \<Rightarrow> go_value list \<Rightarrow> (64 word \<times> error option) outcome" where
  "delete E x sqlStr params =
     (case db x of None \<Rightarrow> Panic
      | Some d \<Rightarrow> Return
          (case Exec E d sqlStr params of
             Inl err \<Rightarrow> (0, Some err)
           | Inr result \<Rightarrow>
               (case RowsAffected result of
                  Inl err \<Rightarrow> (0, Some err)
                | Inr rowsAffected \<Rightarrow> (rowsAffected, None))))"

text \<open>
  The statement switch of \<open>OnMsg\<close>: the values of \<open>data\<close>, \<open>rowsAffected\<close>,
  \<open>lastInsertId\<close> and \<open>err\<close> after it.
\<close>

definition run_statement ::
  "sqlenv \<Rightarrow> DbClientNode \<Rightarrow> string \<Rightarrow> go_value list \<Rightarrow> (go_value \<times> 64 word \<times> 64 word \<times> error option) outcome" where
  "run_statement E x sqlStr params =
     (if opType x = SELECT then
        (case query E x sqlStr params (GetOne (config x)) of
           Panic \<Rightarrow> Panic | Return (data, err) \<Rightarrow> Return (data, 0, 0, err))
      else if opType x = UPDATE then
        (case update E x sqlStr params of
           Panic \<Rightarrow> Panic | Return (rowsAffected, err) \<Rightarrow> Return (GoNil, rowsAffected, 0, err))
      else if opType x = INSERT then
        (case insert_row E x sqlStr params of
           Panic \<Rightarrow> Panic
         | Return (rowsAffected, lastInsertId, err) \<Rightarrow> Return (GoNil, rowsAffected, lastInsertId, err))
      else if opType x = DELETE then
        (case delete E x sqlStr params of
           Panic \<Rightarrow> Panic | Return (rowsAffected, err) \<Rightarrow> Return (GoNil, rowsAffected, 0, err))
      else Return (GoNil, 0, 0, Some (''unsupported sql statement: '' @ sqlStr)))"

text \<open>
  The statement of \<open>OnMsg\<close> after the placeholders are filled from the metadata, and
  its parameters.
\<close>

definition statement_text :: "golib \<Rightarrow> DbClientNode \<Rightarrow> RuleMsg \<Rightarrow> string" where
  "statement_text L x msg = SprintfDict L (Sql (config x)) (Metadata msg)"

definition statement_params :: "golib \<Rightarrow> DbClientNode \<Rightarrow> RuleMsg \<Rightarrow> go_value list" where
  "statement_params L x msg =
     (if paramsHasVar x
      then map (\<lambda>item. case item of GoString v \<Rightarrow> GoString (SprintfDict L v (Metadata msg)) | _ \<Rightarrow> item)
             (Params (config x))
      else Params (config x))"

text \<open>
  The message as the second switch of \<open>OnMsg\<close> leaves it when the error is nil; the
  switch panics where \<open>ToString\<close> does.
\<close>

definition success_msg ::
  "golib \<Rightarrow> DbClientNode \<Rightarrow> RuleMsg \<Rightarrow> go_value \<Rightarrow> 64 word \<Rightarrow> 64 word \<Rightarrow> RuleMsg outcome" where
  "success_msg L x msg data rowsAffected lastInsertId =
     (if opType x = SELECT then
        (case ToString L data of Panic \<Rightarrow> Panic | Return s \<Rightarrow> Return (msg\<lparr>Data := s\<rparr>))
      else if opType x = UPDATE \<or> opType x = DELETE then
        (case ToString L (GoInt64 rowsAffected) of
           Panic \<Rightarrow> Panic | Return s \<Rightarrow> Return (PutValue msg rowsAffectedKey s))
      else if opType x = INSERT then
        (case ToString L (GoInt64 rowsAffected) of
           Panic \<Rightarrow> Panic
         | Return s \<Rightarrow>
             (case ToString L (GoInt64 lastInsertId) of
                Panic \<Rightarrow> Panic
              | Return s' \<Rightarrow> Return (PutValue (PutValue msg rowsAffectedKey s) lastInsertIdKey s')))
      else Return msg)"

text \<open>
  \<open>OnMsg\<close> returns the calls it has made on the context, in order, and its error (or
  nil); or it panics.
\<close>

definition OnMsg :: "golib \<Rightarrow> sqlenv \<Rightarrow> DbClientNode \<Rightarrow> RuleMsg \<Rightarrow> (tell list \<times> error option) outcome" where
  "OnMsg L E x msg =
     (let sqlStr = statement_text L x msg;
          params = statement_params L x msg
      in case run_statement E x sqlStr params of
           Panic \<Rightarrow> Panic
         | Return (data, rowsAffected, lastInsertId, err) \<Rightarrow>
             (case err of
                Some e \<Rightarrow> Return ([TellFailure msg e], err)
              | None \<Rightarrow>
                  (case success_msg L x msg data rowsAffected lastInsertId of
                     Panic \<Rightarrow> Panic
                   | Return msg' \<Rightarrow> Return ([TellSuccess msg'], err))))"

text \<open>
  The error of the statement, read off the database: for a query the error that
  \<open>query\<close> returns; for an update, an insertion or a deletion the error of \<open>Exec\<close> or
  else of \<open>RowsAffected\<close>; for any other operation type the error that the statement is
  not supported.
\<close>

definition exec_error :: "sqlenv \<Rightarrow> DB \<Rightarrow> string \<Rightarrow> go_value list \<Rightarrow> error option" where
  "exec_error E d sqlStr params =
     (case Exec E d sqlStr params of
        Inl err \<Rightarrow> Some err
      | Inr result \<Rightarrow> (case RowsAffected result of Inl err \<Rightarrow> Some err | Inr n \<Rightarrow> None))"

definition statement_error :: "sqlenv \<Rightarrow> DB \<Rightarrow> DbClientNode \<Rightarrow> string \<Rightarrow> go_value list \<Rightarrow> error option" where
  "statement_error E d x sqlStr params =
     (if opType x = SELECT then snd (query_rows E d sqlStr params (GetOne (config x)))
      else if opType x = UPDATE \<or> opType x = INSERT \<or> opType x = DELETE then exec_error E d sqlStr params
      else Some (''unsupported sql statement: '' @ sqlStr))"

text \<open>
  An environment for evaluating the node on examples: the decoder reads the entries
  \<open>sql\<close>, \<open>dbType\<close> and \<open>dsn\<close> of the bag when they are strings, the two drivers the
  node imports open without error, no server answers the ping, and every statement
  fails.
\<close>

definition sample_decode :: "Configuration \<Rightarrow> DbClientNodeConfiguration \<Rightarrow> DbClientNodeConfiguration \<times> error option" where
  "sample_decode bag c =
     (c\<lparr>Sql := (case bag ''sql'' of Some (GoString v) \<Rightarrow> v | _ \<Rightarrow> Sql c),
        DbType := (case bag ''dbType'' of Some (GoString v) \<Rightarrow> v | _ \<Rightarrow> DbType c),
        Dsn := (case bag ''dsn'' of Some (GoString v) \<Rightarrow> v | _ \<Rightarrow> Dsn c)\<rparr>, None)"

definition sample_upper :: "string \<Rightarrow> string" where
  "sample_upper s =
     map (\<lambda>c. case map_of (zip ''abcdefghijklmnopqrstuvwxyz'' ''ABCDEFGHIJKLMNOPQRSTUVWXYZ'') c of
            Some u \<Rightarrow> u | None \<Rightarrow> c) s"

definition sample_env :: sqlenv where
  "sample_env =
     \<lparr>Map2Struct = sample_decode,
      sql_Open = (\<lambda>driver dsn.
         if driver = ''mysql'' \<or> driver = ''postgres''
         then Inr \<lparr>handle = 0, MaxOpenConns = None, MaxIdleConns = None\<rparr>
         else Inl (''sql: unknown driver '' @ driver)),
      Ping = (\<lambda>d. Some ''connection refused''),
      ToUpper = sample_upper,
      Exec = (\<lambda>d sqlStr params. Inl ''connection refused''),
      query_rows = (\<lambda>d sqlStr params getOne. (GoNil, Some ''connection refused''))\<rparr>"

text \<open>The same environment with a database that answers every query.\<close>

definition answering_env :: sqlenv where
  "answering_env = sample_env\<lparr>query_rows := (\<lambda>d sqlStr params getOne. (GoString ''[]'', None))\<rparr>"

text \<open>
  A node after a successful \<open>Init\<close> against a reachable database, for a query.
\<close>

definition ready_node :: DbClientNode where
  "ready_node =
     \<lparr>config = \<lparr>Sql = ''SELECT * FROM t'', Params = [], GetOne = False, PoolSize = 0,
                DbType = ''mysql'', Dsn = []\<rparr>,
      db = Some \<lparr>handle = 0, MaxOpenConns = Some 0, MaxIdleConns = Some 0\<rparr>,
      opType = ''SELECT'', paramsHasVar = False\<rparr>"

text \<open>
  The contract of \<open>OnMsg\<close> in the words of the specification, on the calls made and the
  error returned: exactly one call and no error, or no call and an error.
\<close>

definition OnMsg_contract :: "tell list \<times> error option \<Rightarrow> bool" where
  "OnMsg_contract r = ((length (fst r) = 1 \<and> snd r = None) \<or> (fst r = [] \<and> snd r \<noteq> None))"

text \<open>A node as \<open>New\<close> returns it.\<close>

definition new_node :: DbClientNode where
  "new_node =
     \<lparr>config = \<lparr>Sql = [], Params = [], GetOne = False, PoolSize = 0, DbType = [], Dsn = []\<rparr>,
      db = None, opType = [], paramsHasVar = False\<rparr>"

section \<open>Dispatch along relations\<close>

text \<open>
  Modelled from the spec: the compiled chain (the engine is not among the sources). A
  node is given by what its \<open>OnMsg\<close> does on a message: the calls it makes on the
  context and the error it returns. A compiled chain maps node identifiers to nodes and
  a node identifier with a relation to the list of target identifiers, and names a root.
\<close>

type_synonym node = "RuleMsg \<Rightarrow> tell list \<times> error option"

record chain =
  nodes :: "string \<rightharpoonup> node"
  adjacency :: "string \<Rightarrow> string \<Rightarrow> string list"
  root :: string

text \<open>
  Modelled from the spec: the relation, the message and the error of a call on the
  context.
\<close>

fun tell_relation :: "tell \<Rightarrow> string" where
  "tell_relation (TellSuccess msg) = ''Success''"
| "tell_relation (TellFailure msg err) = ''Failure''"
| "tell_relation (TellNext msg relation) = relation"

fun tell_msg :: "tell \<Rightarrow> RuleMsg" where
  "tell_msg (TellSuccess msg) = msg"
| "tell_msg (TellFailure msg err) = msg"
| "tell_msg (TellNext msg relation) = msg"

fun tell_err :: "tell \<Rightarrow> error option" where
  "tell_err (TellSuccess msg) = None"
| "tell_err (TellFailure msg err) = Some err"
| "tell_err (TellNext msg relation) = None"

text \<open>
  Modelled from the spec: the invocations of several branches, put together; \<open>None\<close>
  when one branch has none because its bound was too small.
\<close>

fun gather :: "'a list option list \<Rightarrow> 'a list option" where
  "gather [] = Some []"
| "gather (r # rs) =
     (case r of None \<Rightarrow> None
      | Some xs \<Rightarrow> (case gather rs of None \<Rightarrow> None | Some ys \<Rightarrow> Some (xs @ ys)))"

text \<open>Modelled from the spec: whether a call is \<open>TellFailure\<close>.\<close>

fun is_failure :: "tell \<Rightarrow> bool" where
  "is_failure (TellSuccess msg) = False"
| "is_failure (TellFailure msg err) = True"
| "is_failure (TellNext msg relation) = False"

text \<open>
  Modelled from the spec: the dispatch algorithm of the execution context (the engine
  that implements \<open>TellNext\<close> and calls \<open>Config.OnEnd\<close> is not among the sources).
  \<open>TellSuccess\<close> is \<open>TellNext\<close> with the relation Success, \<open>TellFailure\<close> is \<open>TellNext\<close>
  with the relation Failure and records the error. \<open>TellNext\<close> looks up the targets of
  the current node under the relation: with no target the path ends here and the
  end-of-message callback is invoked with the current message and error; otherwise
  every target is dispatched independently. An error returned by \<open>OnMsg\<close> is logged and
  follows no relation.

  On a \<open>TellFailure\<close> from a node with no Failure edge the spec says two things:
  step 4 of section 4.3 has the callback invoked at every call without a target, while
  the error policy of section 4.3, section 7 (c) and the third property of section 8
  have the path end silently, the callback never being called for it. The model follows
  the latter three: the rule for \<open>TellFailure\<close> is the more specific one.

  \<open>dispatch\<close> returns the invocations of the end-of-message callback, branch after
  branch; the branches run concurrently, so only the number and the arguments of the
  invocations are meant, not their order. The first argument bounds the depth of the
  traversal; \<open>None\<close> means that the bound was too small.
\<close>

fun dispatch :: "nat \<Rightarrow> chain \<Rightarrow> string \<Rightarrow> RuleMsg \<Rightarrow> (RuleMsg \<times> error option) list option"
  and tell_next :: "nat \<Rightarrow> chain \<Rightarrow> string \<Rightarrow> tell \<Rightarrow> (RuleMsg \<times> error option) list option" where
  "dispatch 0 ch nodeId msg = None"
| "dispatch (Suc fuel) ch nodeId msg =
     (case nodes ch nodeId of
        None \<Rightarrow> Some []
      | Some nd \<Rightarrow> gather (map (tell_next fuel ch nodeId) (fst (nd msg))))"
| "tell_next fuel ch nodeId call =
     (case adjacency ch nodeId (tell_relation call) of
        [] \<Rightarrow> (if is_failure call then Some [] else Some [(tell_msg call, tell_err call)])
      | t # ts \<Rightarrow> gather (map (\<lambda>target. dispatch fuel ch target (tell_msg call)) (t # ts)))"

text \<open>
  Modelled from the spec: invoking a chain on a message starts the dispatch at the root
  node of the chain.
\<close>

definition OnMsg_chain :: "nat \<Rightarrow> chain \<Rightarrow> RuleMsg \<Rightarrow> (RuleMsg \<times> error option) list option" where
  "OnMsg_chain fuel ch msg = dispatch fuel ch (root ch) msg"

text \<open>
  Modelled from the spec: the terminal leaves that a message reaches from a node, each
  with the way that leads to it and the arguments of the end-of-message callback there.
  A terminal leaf is a call with no target under its relation, other than a
  \<open>TellFailure\<close>. The way is the list of the choices made: at a node, the number of the
  call among the calls of the node, then the number of the target among the targets of
  that call, and so on; two leaves differ when their ways differ, also when they are the
  same node reached along different edges.
\<close>

inductive node_leaf :: "chain \<Rightarrow> string \<Rightarrow> RuleMsg \<Rightarrow> nat list \<Rightarrow> RuleMsg \<times> error option \<Rightarrow> bool"
  for ch :: chain where
  here: "nodes ch nodeId = Some nd \<Longrightarrow> i < length (fst (nd msg)) \<Longrightarrow> call = fst (nd msg) ! i \<Longrightarrow>
     adjacency ch nodeId (tell_relation call) = [] \<Longrightarrow> \<not> is_failure call \<Longrightarrow>
     node_leaf ch nodeId msg [i] (tell_msg call, tell_err call)"
| below: "nodes ch nodeId = Some nd \<Longrightarrow> i < length (fst (nd msg)) \<Longrightarrow> call = fst (nd msg) ! i \<Longrightarrow>
     j < length (adjacency ch nodeId (tell_relation call)) \<Longrightarrow>
     node_leaf ch (adjacency ch nodeId (tell_relation call) ! j) (tell_msg call) p ev \<Longrightarrow>
     node_leaf ch nodeId msg (i # j # p) ev"

text \<open>
  Modelled from the spec: the terminal leaves below one call of a node, with the ways
  from that call.
\<close>

definition call_leaf :: "chain \<Rightarrow> string \<Rightarrow> tell \<Rightarrow> nat list \<Rightarrow> RuleMsg \<times> error option \<Rightarrow> bool" where
  "call_leaf ch nodeId call q ev =
     ((q = [] \<and> adjacency ch nodeId (tell_relation call) = [] \<and> \<not> is_failure call
         \<and> ev = (tell_msg call, tell_err call))
      \<or> (\<exists>j p. q = j # p \<and> j < length (adjacency ch nodeId (tell_relation call))
            \<and> node_leaf ch (adjacency ch nodeId (tell_relation call) ! j) (tell_msg call) p ev))"

text \<open>
  The property of \<open>dispatch\<close> with a given bound that is shown for every bound below:
  whenever it returns, its invocations of the callback are, one for one, the terminal
  leaves reached, in some enumeration of them without repetition.
\<close>

definition leaves_ok :: "chain \<Rightarrow> nat \<Rightarrow> bool" where
  "leaves_ok ch fuel = (\<forall>n msg evs. dispatch fuel ch n msg = Some evs \<longrightarrow>
     (\<exists>ps. distinct ps \<and> set ps = {p. \<exists>ev. node_leaf ch n msg p ev}
        \<and> list_all2 (node_leaf ch n msg) ps evs))"

text \<open>
  Two example chains. In the first, node A passes the message on under Success to B and
  C; B and C change the payload and report success; neither has an outgoing edge. In the
  second, A has a third target F, which reports a failure for which it has no edge, and
  C passes the message on under Success to D and E. \<open>deep_rank\<close> numbers the nodes of the
  second chain so that every edge leads to a smaller number.
\<close>

definition fan_out_chain :: chain where
  "fan_out_chain =
     \<lparr>nodes = [''A'' \<mapsto> (\<lambda>msg. ([TellSuccess msg], None)),
               ''B'' \<mapsto> (\<lambda>msg. ([TellSuccess (msg\<lparr>Data := Data msg @ ''-b''\<rparr>)], None)),
               ''C'' \<mapsto> (\<lambda>msg. ([TellSuccess (msg\<lparr>Data := Data msg @ ''-c''\<rparr>)], None))],
      adjacency = (\<lambda>nodeId relation. if nodeId = ''A'' \<and> relation = ''Success'' then [''B'', ''C''] else []),
      root = ''A''\<rparr>"

definition deep_chain :: chain where
  "deep_chain =
     \<lparr>nodes = [''A'' \<mapsto> (\<lambda>msg. ([TellSuccess msg], None)),
               ''B'' \<mapsto> (\<lambda>msg. ([TellSuccess (msg\<lparr>Data := Data msg @ ''-b''\<rparr>)], None)),
               ''C'' \<mapsto> (\<lambda>msg. ([TellSuccess (msg\<lparr>Data := Data msg @ ''-c''\<rparr>)], None)),
               ''D'' \<mapsto> (\<lambda>msg. ([TellSuccess (msg\<lparr>Data := Data msg @ ''-d''\<rparr>)], None)),
               ''E'' \<mapsto> (\<lambda>msg. ([TellNext (msg\<lparr>Data := Data msg @ ''-e''\<rparr>) ''True''], None)),
               ''F'' \<mapsto> (\<lambda>msg. ([TellFailure msg ''refused''], None))],
      adjacency = (\<lambda>nodeId relation.
         if nodeId = ''A'' \<and> relation = ''Success'' then [''B'', ''C'', ''F'']
         else if nodeId = ''C'' \<and> relation = ''Success'' then [''D'', ''E'']
         else []),
      root = ''A''\<rparr>"

definition deep_rank :: "string \<Rightarrow> nat" where
  "deep_rank nodeId = (if nodeId = ''A'' then 2 else if nodeId = ''C'' then 1 else 0)"

section \<open>The worker pool\<close>

text \<open>
  Modelled from the spec: the worker pool (\<open>pool.WorkerPool\<close> is not among the sources).
  The configuration gives the maximum number of concurrently executing tasks. A
  submission starts the task at once while the number of running tasks is under the cap
  and queues it otherwise; when a running task completes, capacity is free and the task
  queued first starts. A state holds the running and the queued tasks; the events are
  the submission and the completion of a task.
\<close>

record pool_state =
  running :: "nat list"
  queued :: "nat list"

datatype pool_event = Submit nat | Complete nat

text \<open>
  Modelled from the spec: one event of the pool, and a sequence of events from the
  empty pool.
\<close>

fun pool_step :: "nat \<Rightarrow> pool_state \<Rightarrow> pool_event \<Rightarrow> pool_state" where
  "pool_step cap s (Submit t) =
     (if length (running s) < cap then s\<lparr>running := running s @ [t]\<rparr>
      else s\<lparr>queued := queued s @ [t]\<rparr>)"
| "pool_step cap s (Complete t) =
     (if t \<in> set (running s) then
        (let r = remove1 t (running s) in
         case queued s of
           [] \<Rightarrow> s\<lparr>running := r\<rparr>
         | q # qs \<Rightarrow> (if length r < cap then s\<lparr>running := r @ [q], queued := qs\<rparr> else s\<lparr>running := r\<rparr>))
      else s)"

definition pool_run :: "nat \<Rightarrow> pool_event list \<Rightarrow> pool_state" where
  "pool_run cap evs = foldl (pool_step cap) \<lparr>running = [], queued = []\<rparr> evs"

section \<open>Properties of the string helpers\<close>

lemma dollar_numbered_no_qmark:
  "CHR ''?'' \<notin> set xs \<Longrightarrow> dollar_numbered n (xs @ ys) = xs @ dollar_numbered n ys"
  by (induction xs) auto

lemma dollar_numbered_id: "CHR ''?'' \<notin> set xs \<Longrightarrow> dollar_numbered n xs = xs"
  using dollar_numbered_no_qmark [of xs n "[]"] by simp

lemma dollar_numbered_Replace:
  "CHR ''?'' \<in> set s \<Longrightarrow>
   dollar_numbered (n + 1) (Replace s ''?'' (CHR ''$'' # FormatUint n) 1) = dollar_numbered n s"
proof (induction s)
  case Nil
  then show ?case by simp
next
  case (Cons a s)
  show ?case
  proof (cases "a = CHR ''?''")
    case True
    have "CHR ''?'' \<notin> set (CHR ''$'' # FormatUint n)"
      by (simp add: FormatUint_no_qmark)
    then have "dollar_numbered (n + 1) ((CHR ''$'' # FormatUint n) @ s)
        = (CHR ''$'' # FormatUint n) @ dollar_numbered (n + 1) s"
      by (rule dollar_numbered_no_qmark)
    with True show ?thesis
      by (simp add: Replace_hit Replace_zero)
  next
    case False
    with Cons show ?thesis
      by (simp add: Replace_miss)
  qed
qed

lemma convert_loop_numbered: "convert_loop sql n = dollar_numbered n sql"
proof (induction sql n rule: convert_loop.induct)
  case (1 sql n)
  show ?case
  proof (cases "Contains sql ''?''")
    case True
    then have "CHR ''?'' \<in> set sql"
      by (simp add: Contains_single)
    then have "dollar_numbered (n + 1) (Replace sql ''?'' (CHR ''$'' # FormatUint n) 1)
        = dollar_numbered n sql"
      by (rule dollar_numbered_Replace)
    with True 1 show ?thesis
      by (subst convert_loop.simps) simp
  next
    case False
    then have "CHR ''?'' \<notin> set sql"
      by (simp add: Contains_single)
    then have "dollar_numbered n sql = sql"
      by (rule dollar_numbered_id)
    with False show ?thesis
      by (subst convert_loop.simps) simp
  qed
qed

text \<open>
  C8. \<open>ConvertDollarPlaceholder\<close> is a total function (its loop was shown to terminate
  when it was defined: every round removes one question mark). For a database type
  other than postgres it returns the statement unchanged; for postgres it returns the
  statement with its question marks replaced, from left to right, by \<open>$1\<close>, \<open>$2\<close>
  and so on.
\<close>

theorem ConvertDollarPlaceholder_spec:
  "ConvertDollarPlaceholder sql dbType =
     (if dbType = ''postgres'' then dollar_numbered 1 sql else sql)"
  by (simp add: ConvertDollarPlaceholder_def convert_loop_numbered)

theorem ConvertDollarPlaceholder_spec_witness:
  "ConvertDollarPlaceholder ''a=? AND b=?'' ''postgres'' = ''a=$1 AND b=$2''
   \<and> ConvertDollarPlaceholder ''a=? AND b=?'' ''mysql'' = ''a=? AND b=?''"
  using ConvertDollarPlaceholder_spec [of "''a=? AND b=?''" "''postgres''"]
    ConvertDollarPlaceholder_spec [of "''a=? AND b=?''" "''mysql''"]
  by (simp add: FormatUint.simps digit_char_def)

text \<open>
  C10, as amended. \<open>ToString\<close> of the nil interface value returns the empty string, and
  \<open>ToString\<close> of a string returns that string. \<open>ToString\<close> panics exactly when the
  method \<open>String()\<close> or \<open>Error()\<close> that it calls on the value panics, or when
  \<open>json.Marshal\<close> does; on every other value it returns a text.
\<close>

theorem ToString_returns:
  "ToString L GoNil = Return []
   \<and> ToString L (GoString s) = Return s
   \<and> (ToString L v = Panic \<longleftrightarrow>
        v = GoStringer Panic \<or> v = GoError Panic \<or> (\<exists>t. v = GoOther t \<and> Marshal L v = Panic))"
  by (cases v) (auto split: outcome.splits sum.splits)

text \<open>
  C10 as stated fails: \<open>ToString\<close> is not total. On a value behind \<open>fmt.Stringer\<close>
  whose \<open>String\<close> method panics, such as a nil pointer whose method has a value
  receiver, \<open>ToString\<close> panics.
\<close>

theorem ToString_total_counterexample:
  "ToString sample_golib (GoStringer Panic) = Panic"
  by simp

section \<open>Order of enumeration in SprintfDict\<close>

lemma render_Nil [simp]: "render [] = []"
  by (simp add: render_def)

lemma render_Cons [simp]: "render (t # ts) = render_tok t @ render ts"
  by (simp add: render_def)

lemma render_append [simp]: "render (ts @ us) = render ts @ render us"
  by (simp add: render_def)

lemma render_Lits [simp]: "render (map Lit s) = s"
  by (induction s) auto

lemma Replace_skip:
  "d \<notin> set xs \<Longrightarrow> n \<noteq> 0 \<Longrightarrow> Replace (xs @ ys) (d # p) new n = xs @ Replace ys (d # p) new n"
  by (induction xs) (auto simp: Replace_miss)

lemma prefix_key_eq:
  "prefix (k @ [c]) (k' @ c # rest) \<Longrightarrow> c \<notin> set k \<Longrightarrow> c \<notin> set k' \<Longrightarrow> k = k'"
proof (induction k arbitrary: k')
  case Nil
  then show ?case by (cases k') auto
next
  case (Cons a k)
  then show ?case by (cases k') auto
qed

text \<open>
  On a pattern of plain tokens, one round of \<open>strings.Replace\<close> for the placeholder of
  \<open>k\<close> replaces exactly the tokens \<open>Var k\<close>.
\<close>

lemma Replace_render:
  assumes "\<forall>t\<in>set toks. wf_tok t" and "CHR ''}'' \<notin> set k" and "n < 0"
  shows "Replace (render toks) (''${'' @ k @ ''}'') new n
           = render (concat (map (subst_tok k new) toks))"
  using assms
proof (induction toks arbitrary: n)
  case Nil
  then show ?case by (simp add: Replace_Nil)
next
  case (Cons t toks)
  have n: "n \<noteq> 0" "n - 1 < 0" using Cons.prems(3) by simp_all
  have IH: "\<And>m. m < 0 \<Longrightarrow> Replace (render toks) (''${'' @ k @ ''}'') new m
      = render (concat (map (subst_tok k new) toks))"
    using Cons by simp
  show ?case
  proof (cases t)
    case (Lit c)
    with Cons.prems(1) have "c \<noteq> CHR ''$''" by simp
    with Lit n IH [of n] Cons.prems(3) show ?thesis
      by (simp add: Replace_miss)
  next
    case (Var k')
    with Cons.prems(1) have k': "CHR ''$'' \<notin> set k'" "CHR ''}'' \<notin> set k'" by simp_all
    show ?thesis
    proof (cases "k' = k")
      case True
      have "Replace ((''${'' @ k @ ''}'') @ render toks) (''${'' @ k @ ''}'') new n
          = new @ Replace (render toks) (''${'' @ k @ ''}'') new (n - 1)"
        using n(1) Replace_hit [of "''${'' @ k @ ''}''" n "CHR ''$''"
            "CHR ''{'' # k @ ''}'' @ render toks" new]
        by simp
      with True Var IH [of "n - 1"] n(2) show ?thesis
        by simp
    next
      case False
      have np: "\<not> prefix (''${'' @ k @ ''}'') (''${'' @ k' @ ''}'' @ render toks)"
      proof
        assume "prefix (''${'' @ k @ ''}'') (''${'' @ k' @ ''}'' @ render toks)"
        then have "prefix (k @ [CHR ''}'']) (k' @ CHR ''}'' # render toks)" by simp
        then have "k = k'" using Cons.prems(2) k'(2) by (rule prefix_key_eq)
        with False show False by simp
      qed
      have "CHR ''$'' \<notin> set (CHR ''{'' # k' @ ''}'')" using k'(1) by simp
      then have "Replace ((CHR ''{'' # k' @ ''}'') @ render toks) (CHR ''$'' # CHR ''{'' # k @ ''}'') new n
          = (CHR ''{'' # k' @ ''}'') @ Replace (render toks) (CHR ''$'' # CHR ''{'' # k @ ''}'') new n"
        using n(1) by (rule Replace_skip)
      with np False Var IH [of n] Cons.prems(3) n(1) show ?thesis
        by (simp add: Replace_miss)
    qed
  qed
qed

lemma wf_subst:
  "\<forall>t\<in>set toks. wf_tok t \<Longrightarrow> CHR ''$'' \<notin> set new \<Longrightarrow>
   \<forall>t\<in>set (concat (map (subst_tok k new) toks)). wf_tok t"
proof (induction toks)
  case Nil
  then show ?case by simp
next
  case (Cons t toks)
  then show ?case by (cases t) auto
qed

lemma fill_Lits: "fill L m (map Lit s) = map Lit s"
  by (induction s) (auto simp: fill_def)

lemma fill_append: "fill L m (xs @ ys) = fill L m xs @ fill L m ys"
  by (simp add: fill_def)

lemma fill_subst_tok:
  "fill L m (subst_tok k (Sprintf_s L v) t) = fill_tok L (m(k \<mapsto> v)) t"
proof (cases t)
  case (Lit c)
  then show ?thesis by (simp add: fill_def)
next
  case (Var k')
  then show ?thesis by (simp add: fill_Lits) (simp add: fill_def)
qed

lemma fill_subst:
  "fill L m (concat (map (subst_tok k (Sprintf_s L v)) toks)) = fill L (m(k \<mapsto> v)) toks"
proof (induction toks)
  case Nil
  then show ?case by (simp add: fill_def)
next
  case (Cons t toks)
  have "fill L m (concat (map (subst_tok k (Sprintf_s L v)) (t # toks)))
      = fill L m (subst_tok k (Sprintf_s L v) t)
        @ fill L m (concat (map (subst_tok k (Sprintf_s L v)) toks))"
    by (simp add: fill_append)
  also have "\<dots> = fill_tok L (m(k \<mapsto> v)) t @ fill L (m(k \<mapsto> v)) toks"
    by (simp only: fill_subst_tok Cons.IH)
  also have "\<dots> = fill L (m(k \<mapsto> v)) (t # toks)"
    by (simp only: fill_def list.map concat.simps)
  finally show ?case .
qed

lemma fill_empty: "fill L Map.empty toks = toks"
proof (induction toks)
  case Nil
  then show ?case by (simp add: fill_def)
next
  case (Cons t toks)
  then show ?case by (cases t) (auto simp: fill_def)
qed

text \<open>
  On a pattern of plain tokens and a dictionary of plain entries, \<open>SprintfDict\<close> fills
  every placeholder whose name is a key with the text of its value, all at once.
\<close>

lemma SprintfDict_fill:
  "\<forall>t\<in>set toks. wf_tok t \<Longrightarrow> \<forall>e\<in>set d. plain_entry L e \<Longrightarrow>
   SprintfDict L (render toks) d = render (fill L (map_of d) toks)"
proof (induction d arbitrary: toks)
  case Nil
  then show ?case by (simp add: SprintfDict_def fill_empty)
next
  case (Cons e d)
  obtain k v where e: "e = (k, v)" by (cases e)
  let ?toks = "concat (map (subst_tok k (Sprintf_s L v)) toks)"
  from Cons.prems(2) e have pe: "CHR ''}'' \<notin> set k" "CHR ''$'' \<notin> set (Sprintf_s L v)"
    by (simp_all add: plain_entry_def)
  have step: "ProcessVar L (render toks) k v = render ?toks"
    unfolding ProcessVar_def varPatternLeft_def varPatternRight_def Let_def
    using Cons.prems(1) pe(1) by (rule Replace_render) simp
  have wf: "\<forall>t\<in>set ?toks. wf_tok t"
    using Cons.prems(1) pe(2) by (rule wf_subst)
  have "SprintfDict L (render toks) (e # d) = SprintfDict L (render ?toks) d"
    using step e by (simp add: SprintfDict_def)
  also have "\<dots> = render (fill L (map_of d) ?toks)"
    using wf Cons.prems(2) by (intro Cons.IH) simp_all
  also have "fill L (map_of d) ?toks = fill L ((map_of d)(k \<mapsto> v)) toks"
    by (rule fill_subst)
  also have "(map_of d)(k \<mapsto> v) = map_of (e # d)"
    using e by simp
  finally show ?case .
qed

text \<open>
  Two enumerations of the same dictionary give the same result of \<open>SprintfDict\<close> when
  the pattern consists of characters other than the dollar sign and of placeholders
  whose names contain neither a dollar sign nor a closing brace, no key of the
  dictionary contains a dollar sign or a closing brace, and the text printed for no
  value contains a dollar sign.
\<close>

lemma SprintfDict_plain_order_independent:
  assumes "\<forall>t\<in>set toks. wf_tok t" and "\<forall>e\<in>set d1. plain_entry L e"
    and "distinct (map fst d1)" and "distinct (map fst d2)" and "set d1 = set d2"
  shows "SprintfDict L (render toks) d1 = SprintfDict L (render toks) d2"
proof -
  have "map_of d1 = map_of d2"
    using assms(3-5) by (simp add: map_of_inject_set)
  moreover have "\<forall>e\<in>set d2. plain_entry L e"
    using assms(2,5) by simp
  ultimately show ?thesis
    using assms(1,2) by (simp add: SprintfDict_fill)
qed

text \<open>
  C9, where the code departs from it. With the pattern \<open>${a}\<close> and the dictionary that
  maps \<open>a\<close> to the text \<open>${b}\<close> and \<open>b\<close> to \<open>x\<close>, the result is \<open>x\<close> when the keys
  are enumerated in the order \<open>a\<close>, \<open>b\<close> and \<open>${b}\<close> in the order \<open>b\<close>, \<open>a\<close>. In
  the first order the key \<open>b\<close>, which is not in the pattern, is not ignored: without it
  the result is \<open>${b}\<close>.
\<close>

theorem SprintfDict_order_dependent:
  "SprintfDict sample_golib ''${a}'' [(''a'', GoString ''${b}''), (''b'', GoString ''x'')] = ''x''
   \<and> SprintfDict sample_golib ''${a}'' [(''b'', GoString ''x''), (''a'', GoString ''${b}'')] = ''${b}''
   \<and> SprintfDict sample_golib ''${a}'' [(''a'', GoString ''${b}'')] = ''${b}''"
  by code_simp

section \<open>Properties of the engine configuration\<close>

text \<open>
  C3, as amended. \<open>NewConfig\<close> with no option leaves the pool nil. The pool with
  \<open>MaxWorkersCount\<close> equal to \<open>math.MaxInt32\<close>, as \<open>DefaultPool\<close> produces it, is in the
  configuration when the option \<open>WithDefaultPool()\<close> or \<open>WithPool(DefaultPool())\<close> is
  given.
\<close>

theorem NewConfig_no_pool:
  "Pool (NewConfig []) = None
   \<and> Pool (NewConfig [WithDefaultPool]) = Some DefaultPool
   \<and> Pool (NewConfig [WithPool DefaultPool]) = Some DefaultPool
   \<and> DefaultPool = WorkerPoolRef \<lparr>MaxWorkersCount = MaxInt32, started = True\<rparr>
   \<and> MaxInt32 = 2 ^ 31 - 1"
  by (simp add: NewConfig_def WithDefaultPool_def WithPool_def DefaultPool_def Start_def MaxInt32_def)

text \<open>
  C3 as stated fails: the configuration built with no option does not contain the pool
  that \<open>DefaultPool\<close> produces.
\<close>

theorem NewConfig_pool_counterexample:
  "Pool (NewConfig []) \<noteq> Some DefaultPool"
  by (simp add: NewConfig_def)

text \<open>
  C4. \<open>NewConfig\<close> with an empty option list returns a configuration whose
  \<open>JsMaxExecutionTime\<close> is 2000 milliseconds, that is 2000000000 nanoseconds.
\<close>

theorem NewConfig_JsMaxExecutionTime:
  "JsMaxExecutionTime (NewConfig []) = 2000 * Millisecond
   \<and> sint (JsMaxExecutionTime (NewConfig [])) = 2000 * 1000000"
  by (simp add: NewConfig_def Millisecond_def)

section \<open>Properties of the database client node\<close>

lemma run_statement_Return:
  "db x = Some d \<Longrightarrow> \<exists>r. run_statement E x sqlStr params = Return r"
  by (auto simp: run_statement_def query_def update_def insert_row_def delete_def
      split: sum.splits prod.splits)

lemma run_statement_error:
  "db x = Some d \<Longrightarrow> run_statement E x sqlStr params = Return (data, rowsAffected, lastInsertId, err) \<Longrightarrow>
   err = statement_error E d x sqlStr params"
  by (auto simp: run_statement_def query_def update_def insert_row_def delete_def
      statement_error_def exec_error_def Let_def
      split: sum.splits prod.splits if_splits)

lemma ToString_GoInt64: "ToString L (GoInt64 v) = Return (FormatInt (sint v))"
  by simp

lemma success_msg_Panic:
  "success_msg L x msg data rowsAffected lastInsertId = Panic \<longleftrightarrow>
     opType x = SELECT \<and> ToString L data = Panic"
  by (auto simp: success_msg_def split: outcome.splits)

text \<open>
  C1, as amended. On a node with a database handle, \<open>OnMsg\<close> runs the statement. When
  the statement fails, or the operation type is none of the four, it calls
  \<open>TellFailure\<close> with the incoming message and the error, makes no other call, and
  returns that same error. When the statement succeeds it calls \<open>TellSuccess\<close>, makes
  no other call, and returns nil; only where the result of a query cannot be turned into
  text, because \<open>ToString\<close> panics, does \<open>OnMsg\<close> panic instead.
\<close>

theorem OnMsg_one_call:
  assumes "db x = Some d"
  shows "\<exists>data rowsAffected lastInsertId err.
      run_statement E x (statement_text L x msg) (statement_params L x msg)
        = Return (data, rowsAffected, lastInsertId, err)
    \<and> err = statement_error E d x (statement_text L x msg) (statement_params L x msg)
    \<and> (case err of
         Some e \<Rightarrow> OnMsg L E x msg = Return ([TellFailure msg e], Some e)
       | None \<Rightarrow>
           (case success_msg L x msg data rowsAffected lastInsertId of
              Return msg' \<Rightarrow> OnMsg L E x msg = Return ([TellSuccess msg'], None)
            | Panic \<Rightarrow> OnMsg L E x msg = Panic \<and> opType x = SELECT \<and> ToString L data = Panic))"
proof -
  let ?sqlStr = "statement_text L x msg"
  let ?params = "statement_params L x msg"
  from assms obtain r where r: "run_statement E x ?sqlStr ?params = Return r"
    using run_statement_Return by blast
  obtain data rowsAffected lastInsertId err where t: "r = (data, rowsAffected, lastInsertId, err)"
    by (cases r) auto
  have e: "err = statement_error E d x ?sqlStr ?params"
    using assms r t by (intro run_statement_error) simp_all
  have c: "(case err of
         Some e \<Rightarrow> OnMsg L E x msg = Return ([TellFailure msg e], Some e)
       | None \<Rightarrow>
           (case success_msg L x msg data rowsAffected lastInsertId of
              Return msg' \<Rightarrow> OnMsg L E x msg = Return ([TellSuccess msg'], None)
            | Panic \<Rightarrow> OnMsg L E x msg = Panic \<and> opType x = SELECT \<and> ToString L data = Panic))"
  proof (cases err)
    case None
    show ?thesis
    proof (cases "success_msg L x msg data rowsAffected lastInsertId")
      case Panic
      with None r t success_msg_Panic [of L x msg data rowsAffected lastInsertId] show ?thesis
        by (simp add: OnMsg_def Let_def)
    next
      case (Return msg')
      with None r t show ?thesis
        by (simp add: OnMsg_def Let_def)
    qed
  next
    case (Some e)
    with r t show ?thesis
      by (simp add: OnMsg_def Let_def)
  qed
  from r t e c show ?thesis by blast
qed

theorem OnMsg_one_call_witness:
  "OnMsg sample_golib sample_env ready_node \<lparr>Data = ''x'', Metadata = []\<rparr>
       = Return ([TellFailure \<lparr>Data = ''x'', Metadata = []\<rparr> ''connection refused''],
                 Some ''connection refused'')
   \<and> statement_error sample_env \<lparr>handle = 0, MaxOpenConns = Some 0, MaxIdleConns = Some 0\<rparr> ready_node
        ''SELECT * FROM t'' [] = Some ''connection refused''
   \<and> OnMsg sample_golib answering_env ready_node \<lparr>Data = ''x'', Metadata = []\<rparr>
       = Return ([TellSuccess \<lparr>Data = ''[]'', Metadata = []\<rparr>], None)
   \<and> statement_error answering_env \<lparr>handle = 0, MaxOpenConns = Some 0, MaxIdleConns = Some 0\<rparr> ready_node
        ''SELECT * FROM t'' [] = None"
proof -
  have h: "db ready_node = Some \<lparr>handle = 0, MaxOpenConns = Some 0, MaxIdleConns = Some 0\<rparr>"
    by (simp add: ready_node_def)
  have r1: "OnMsg sample_golib sample_env ready_node \<lparr>Data = ''x'', Metadata = []\<rparr>
       = Return ([TellFailure \<lparr>Data = ''x'', Metadata = []\<rparr> ''connection refused''],
                 Some ''connection refused'')"
    by code_simp
  have r2: "OnMsg sample_golib answering_env ready_node \<lparr>Data = ''x'', Metadata = []\<rparr>
       = Return ([TellSuccess \<lparr>Data = ''[]'', Metadata = []\<rparr>], None)"
    by code_simp
  have e1: "statement_error sample_env \<lparr>handle = 0, MaxOpenConns = Some 0, MaxIdleConns = Some 0\<rparr> ready_node
        ''SELECT * FROM t'' [] = Some ''connection refused''"
    by code_simp
  have e2: "statement_error answering_env \<lparr>handle = 0, MaxOpenConns = Some 0, MaxIdleConns = Some 0\<rparr> ready_node
        ''SELECT * FROM t'' [] = None"
    by code_simp
  show ?thesis
    using OnMsg_one_call [OF h, of sample_env sample_golib "\<lparr>Data = ''x'', Metadata = []\<rparr>"]
      OnMsg_one_call [OF h, of answering_env sample_golib "\<lparr>Data = ''x'', Metadata = []\<rparr>"]
      r1 r2 e1 e2
    by simp
qed

text \<open>
  C1 as stated fails: when the query fails, \<open>OnMsg\<close> calls \<open>TellFailure\<close> and also
  returns the error, which is neither of the two cases of the contract.
\<close>

theorem OnMsg_contract_counterexample:
  "OnMsg sample_golib sample_env ready_node \<lparr>Data = ''x'', Metadata = []\<rparr>
       = Return ([TellFailure \<lparr>Data = ''x'', Metadata = []\<rparr> ''connection refused''],
                 Some ''connection refused'')
   \<and> \<not> OnMsg_contract ([TellFailure \<lparr>Data = ''x'', Metadata = []\<rparr> ''connection refused''],
                         Some ''connection refused'')"
  by code_simp

lemma fields_blank: "blank s \<Longrightarrow> fields_from [] s = []"
proof (induction s rule: blank.induct)
  case (1 s)
  show ?case
  proof (cases "s = []")
    case True
    then show ?thesis by (subst fields_from.simps) simp
  next
    case False
    have step: "blank s = (if s = [] then True else if space_width s = 0 then False
        else blank (drop (space_width s) s))"
      by (rule blank.simps)
    have w: "space_width s \<noteq> 0"
    proof
      assume "space_width s = 0"
      with step False "1.prems" show False by simp
    qed
    with step False "1.prems" have b: "blank (drop (space_width s) s)" by simp
    have "fields_from [] (drop (space_width s) s) = []"
      using False w b by (rule "1.IH")
    with False w show ?thesis
      by (subst fields_from.simps) simp
  qed
qed

lemma space_width_ascii:
  "c \<in> {CHR 0x09, CHR 0x0A, CHR 0x0B, CHR 0x0C, CHR 0x0D, CHR 0x20} \<Longrightarrow> space_width (c # s) = 1"
  unfolding space_width_def white_space_def by (elim insertE emptyE) simp_all

lemma ascii_blank:
  "\<forall>c\<in>set s. c \<in> {CHR 0x09, CHR 0x0A, CHR 0x0B, CHR 0x0C, CHR 0x0D, CHR 0x20} \<Longrightarrow> blank s"
proof (induction s)
  case Nil
  then show ?case by (subst blank.simps) simp
next
  case (Cons c s)
  then have "space_width (c # s) = 1" by (intro space_width_ascii) simp
  with Cons show ?case by (subst blank.simps) simp
qed

text \<open>
  C5, where the code departs from it. When the bag decodes without error, the database
  opens, and the statement is empty or consists of white space only, \<open>Init\<close> panics: it
  reads the first of no words.
\<close>

theorem Init_blank_Sql_panics:
  assumes "Map2Struct E configuration (config x) = (c, None)"
    and "sql_Open E (if DbType c = [] then ''mysql'' else DbType c) (Dsn c) = Inr d"
    and "blank (Sql c)"
  shows "Init E configuration x = Panic"
proof -
  have blank: "Fields (Sql c) = []"
    using assms(3) by (simp add: Fields_def fields_blank)
  show ?thesis
  proof (cases "DbType c = []")
    case True
    with assms(2) have "sql_Open E ''mysql'' (Dsn c) = Inr d" by simp
    with True assms(1) blank show ?thesis
      by (simp add: Init_def Let_def)
  next
    case False
    with assms(2) have "sql_Open E (DbType c) (Dsn c) = Inr d" by simp
    with False assms(1) blank show ?thesis
      by (simp add: Init_def Let_def)
  qed
qed

theorem Init_blank_Sql_panics_witness:
  "Init sample_env Map.empty new_node = Panic
   \<and> Init sample_env [''sql'' \<mapsto> GoString ''  ''] new_node = Panic
   \<and> Init sample_env [''sql'' \<mapsto> GoString [CHR 0xC2, CHR 0xA0]] new_node = Panic"
proof -
  let ?d = "\<lparr>handle = 0, MaxOpenConns = None, MaxIdleConns = None\<rparr>"
  have o: "\<And>c. DbType c = [] \<Longrightarrow> Dsn c = [] \<Longrightarrow>
      sql_Open sample_env (if DbType c = [] then ''mysql'' else DbType c) (Dsn c) = Inr ?d"
    by (simp add: sample_env_def)
  have m1: "Map2Struct sample_env Map.empty (config new_node) = (config new_node, None)"
    by (simp add: sample_env_def sample_decode_def new_node_def)
  have m2: "Map2Struct sample_env [''sql'' \<mapsto> GoString ''  ''] (config new_node)
      = (config new_node\<lparr>Sql := ''  ''\<rparr>, None)"
    by (simp add: sample_env_def sample_decode_def new_node_def)
  have m3: "Map2Struct sample_env [''sql'' \<mapsto> GoString [CHR 0xC2, CHR 0xA0]] (config new_node)
      = (config new_node\<lparr>Sql := [CHR 0xC2, CHR 0xA0]\<rparr>, None)"
    by (simp add: sample_env_def sample_decode_def new_node_def)
  have b1: "blank (Sql (config new_node))" by code_simp
  have b2: "blank (Sql (config new_node\<lparr>Sql := ''  ''\<rparr>))" by code_simp
  have b3: "blank (Sql (config new_node\<lparr>Sql := [CHR 0xC2, CHR 0xA0]\<rparr>))" by code_simp
  have o1: "sql_Open sample_env (if DbType (config new_node) = [] then ''mysql'' else DbType (config new_node))
      (Dsn (config new_node)) = Inr ?d"
    by (rule o) (simp_all add: new_node_def)
  have o2: "sql_Open sample_env (if DbType (config new_node\<lparr>Sql := ''  ''\<rparr>) = [] then ''mysql''
        else DbType (config new_node\<lparr>Sql := ''  ''\<rparr>))
      (Dsn (config new_node\<lparr>Sql := ''  ''\<rparr>)) = Inr ?d"
    by (rule o) (simp_all add: new_node_def)
  have o3: "sql_Open sample_env (if DbType (config new_node\<lparr>Sql := [CHR 0xC2, CHR 0xA0]\<rparr>) = [] then ''mysql''
        else DbType (config new_node\<lparr>Sql := [CHR 0xC2, CHR 0xA0]\<rparr>))
      (Dsn (config new_node\<lparr>Sql := [CHR 0xC2, CHR 0xA0]\<rparr>)) = Inr ?d"
    by (rule o) (simp_all add: new_node_def)
  show ?thesis
    using Init_blank_Sql_panics [OF m1 o1 b1] Init_blank_Sql_panics [OF m2 o2 b2]
      Init_blank_Sql_panics [OF m3 o3 b3]
    by simp
qed

text \<open>
  Where the decoder and the calls on the database return, that is the only way for
  \<open>Init\<close> to panic: it panics exactly when the bag decodes, the database opens and the
  statement has no words.
\<close>

lemma Init_Panic_iff:
  "Init E configuration x = Panic \<longleftrightarrow>
     (\<exists>c d. Map2Struct E configuration (config x) = (c, None)
        \<and> sql_Open E (if DbType c = [] then ''mysql'' else DbType c) (Dsn c) = Inr d
        \<and> Fields (Sql c) = [])"
proof (cases "Map2Struct E configuration (config x)")
  case (Pair c e)
  show ?thesis
  proof (cases e)
    case (Some err)
    with Pair show ?thesis by (simp add: Init_def)
  next
    case None
    show ?thesis
    proof (cases "sql_Open E (if DbType c = [] then ''mysql'' else DbType c) (Dsn c)")
      case (Inl err)
      with Pair None show ?thesis
        by (cases "DbType c = []") (simp_all add: Init_def Let_def)
    next
      case (Inr d)
      with Pair None show ?thesis
        by (cases "DbType c = []") (simp_all add: Init_def Let_def split: list.splits)
    qed
  qed
qed

text \<open>
  C6. When the bag decodes without error and with an empty \<open>DbType\<close>, \<open>Init\<close> does what
  it does on the same configuration with \<open>DbType\<close> set to mysql, and the node it
  returns has \<open>DbType\<close> mysql.
\<close>

theorem Init_default_DbType:
  assumes "Map2Struct E configuration (config x) = (c, None)" and "DbType c = []"
  shows "Init E configuration x
           = Init (E\<lparr>Map2Struct := \<lambda>bag c0. (c\<lparr>DbType := ''mysql''\<rparr>, None)\<rparr>) configuration x
     \<and> (\<forall>x' err. Init E configuration x = Return (x', err) \<longrightarrow> DbType (config x') = ''mysql'')"
  using assms
  by (auto simp: Init_def Let_def split: sum.splits list.splits)

theorem Init_default_DbType_witness:
  "Map2Struct sample_env [''sql'' \<mapsto> GoString ''select 1''] (config new_node)
      = (config new_node\<lparr>Sql := ''select 1''\<rparr>, None)
   \<and> DbType (config new_node\<lparr>Sql := ''select 1''\<rparr>) = []
   \<and> Init sample_env [''sql'' \<mapsto> GoString ''select 1''] new_node
      = Return (\<lparr>config = \<lparr>Sql = ''select 1'', Params = [], GetOne = False, PoolSize = 0,
                            DbType = ''mysql'', Dsn = []\<rparr>,
                 db = Some \<lparr>handle = 0, MaxOpenConns = Some 0, MaxIdleConns = Some 0\<rparr>,
                 opType = ''SELECT'', paramsHasVar = False\<rparr>, Some ''connection refused'')"
proof -
  have h1: "Map2Struct sample_env [''sql'' \<mapsto> GoString ''select 1''] (config new_node)
      = (config new_node\<lparr>Sql := ''select 1''\<rparr>, None)"
    by (simp add: sample_env_def sample_decode_def new_node_def)
  have h2: "DbType (config new_node\<lparr>Sql := ''select 1''\<rparr>) = []"
    by (simp add: new_node_def)
  have r: "Init sample_env [''sql'' \<mapsto> GoString ''select 1''] new_node
      = Return (\<lparr>config = \<lparr>Sql = ''select 1'', Params = [], GetOne = False, PoolSize = 0,
                            DbType = ''mysql'', Dsn = []\<rparr>,
                 db = Some \<lparr>handle = 0, MaxOpenConns = Some 0, MaxIdleConns = Some 0\<rparr>,
                 opType = ''SELECT'', paramsHasVar = False\<rparr>, Some ''connection refused'')"
    by code_simp
  show ?thesis
    using Init_default_DbType [OF h1 h2] h1 h2 r by simp
qed

section \<open>Properties of dispatch\<close>

lemma gather_Some_D:
  "gather rs = Some evs \<Longrightarrow> (\<forall>r\<in>set rs. r \<noteq> None) \<and> evs = concat (map the rs)"
  by (induction rs arbitrary: evs) (auto split: option.splits)

lemma gather_all_Some: "\<forall>r\<in>set rs. r \<noteq> None \<Longrightarrow> gather rs \<noteq> None"
  by (induction rs) (auto split: option.splits)

lemma gather_map_Some:
  assumes "gather (map f xs) = Some evs"
  shows "(\<forall>k<length xs. f (xs ! k) = Some (the (f (xs ! k))))
     \<and> evs = concat (map (\<lambda>k. the (f (xs ! k))) [0..<length xs])"
proof -
  from assms have a: "\<forall>r\<in>set (map f xs). r \<noteq> None" and e: "evs = concat (map the (map f xs))"
    using gather_Some_D by blast+
  have "map (\<lambda>x. the (f x)) xs = map (\<lambda>x. the (f x)) (map (\<lambda>k. xs ! k) [0..<length xs])"
    by (simp only: map_nth)
  then have "map (\<lambda>x. the (f x)) xs = map (\<lambda>k. the (f (xs ! k))) [0..<length xs]"
    by (simp add: comp_def)
  with e have "evs = concat (map (\<lambda>k. the (f (xs ! k))) [0..<length xs])"
    by (simp add: comp_def)
  moreover from a have "\<forall>k<length xs. f (xs ! k) = Some (the (f (xs ! k)))"
    by auto
  ultimately show ?thesis by simp
qed

lemma enumerate_tagged:
  assumes "\<forall>k<m. \<exists>qs. distinct qs \<and> set qs = S k \<and> list_all2 (R k) qs (es k)"
  shows "\<exists>ps. distinct ps \<and> set ps = {k # q | k q. k < m \<and> q \<in> S k}
     \<and> list_all2 (\<lambda>p e. \<exists>k q. p = k # q \<and> k < m \<and> R k q e) ps (concat (map es [0..<m]))"
  using assms
proof (induction m)
  case 0
  then show ?case by simp
next
  case (Suc m)
  then obtain ps where ps: "distinct ps" "set ps = {k # q | k q. k < m \<and> q \<in> S k}"
    "list_all2 (\<lambda>p e. \<exists>k q. p = k # q \<and> k < m \<and> R k q e) ps (concat (map es [0..<m]))"
    by auto
  from Suc.prems obtain qs where qs: "distinct qs" "set qs = S m" "list_all2 (R m) qs (es m)"
    by auto
  let ?ps = "ps @ map ((#) m) qs"
  have d: "distinct ?ps"
    using ps(1,2) qs(1) by (auto simp: distinct_map inj_on_def)
  have s: "set ?ps = {k # q | k q. k < Suc m \<and> q \<in> S k}"
    using ps(2) qs(2) by (auto simp: less_Suc_eq)
  have l1: "list_all2 (\<lambda>p e. \<exists>k q. p = k # q \<and> k < Suc m \<and> R k q e) ps (concat (map es [0..<m]))"
    using ps(3) by (rule list_all2_mono) auto
  have l2: "list_all2 (\<lambda>p e. \<exists>k q. p = k # q \<and> k < Suc m \<and> R k q e) (map ((#) m) qs) (es m)"
    using qs(3) by (simp add: list_all2_map1)
  have "list_all2 (\<lambda>p e. \<exists>k q. p = k # q \<and> k < Suc m \<and> R k q e) ?ps (concat (map es [0..<Suc m]))"
    using l1 l2 by (simp add: list_all2_appendI)
  with d s show ?case by blast
qed

lemma node_leaf_iff:
  "node_leaf ch n msg p ev \<longleftrightarrow>
     (\<exists>nd i q. nodes ch n = Some nd \<and> p = i # q \<and> i < length (fst (nd msg))
        \<and> call_leaf ch n (fst (nd msg) ! i) q ev)"
  by (subst node_leaf.simps) (auto simp: call_leaf_def)

lemma tell_next_leaves:
  assumes ok: "leaves_ok ch fuel" and t: "tell_next fuel ch n call = Some evs"
  shows "\<exists>qs. distinct qs \<and> set qs = {q. \<exists>ev. call_leaf ch n call q ev}
     \<and> list_all2 (call_leaf ch n call) qs evs"
proof (cases "adjacency ch n (tell_relation call)")
  case Nil
  show ?thesis
  proof (cases "is_failure call")
    case True
    with Nil t have "evs = []" by simp
    moreover have "{q. \<exists>ev. call_leaf ch n call q ev} = {}"
      using Nil True by (auto simp: call_leaf_def)
    ultimately show ?thesis by simp
  next
    case False
    with Nil t have "evs = [(tell_msg call, tell_err call)]" by simp
    moreover have "{q. \<exists>ev. call_leaf ch n call q ev} = {[]}"
      using Nil False by (auto simp: call_leaf_def)
    moreover have "call_leaf ch n call [] (tell_msg call, tell_err call)"
      using Nil False by (simp add: call_leaf_def)
    ultimately show ?thesis
      by (intro exI [of _ "[[]]"]) simp
  qed
next
  case (Cons t ts)
  let ?ts = "adjacency ch n (tell_relation call)"
  let ?m = "tell_msg call"
  let ?es = "\<lambda>j. the (dispatch fuel ch (?ts ! j) ?m)"
  from Cons t have g: "gather (map (\<lambda>target. dispatch fuel ch target ?m) ?ts) = Some evs"
    by simp
  from gather_map_Some [OF g]
  have each: "\<forall>j<length ?ts. dispatch fuel ch (?ts ! j) ?m = Some (?es j)"
    and evs: "evs = concat (map ?es [0..<length ?ts])"
    by blast+
  have "\<forall>j<length ?ts. \<exists>qs. distinct qs \<and> set qs = {p. \<exists>ev. node_leaf ch (?ts ! j) ?m p ev}
      \<and> list_all2 (node_leaf ch (?ts ! j) ?m) qs (?es j)"
    using ok each unfolding leaves_ok_def by blast
  from enumerate_tagged [OF this] obtain ps where ps: "distinct ps"
    "set ps = {j # q | j q. j < length ?ts \<and> q \<in> {p. \<exists>ev. node_leaf ch (?ts ! j) ?m p ev}}"
    "list_all2 (\<lambda>p e. \<exists>j q. p = j # q \<and> j < length ?ts \<and> node_leaf ch (?ts ! j) ?m q e) ps
       (concat (map ?es [0..<length ?ts]))"
    by blast
  have s: "set ps = {q. \<exists>ev. call_leaf ch n call q ev}"
    using ps(2) Cons by (auto simp: call_leaf_def)
  have "list_all2 (call_leaf ch n call) ps evs"
    unfolding evs using ps(3) by (rule list_all2_mono) (auto simp: call_leaf_def)
  with ps(1) s show ?thesis by blast
qed

lemma dispatch_leaves_step:
  assumes ok: "leaves_ok ch fuel"
  shows "leaves_ok ch (Suc fuel)"
  unfolding leaves_ok_def
proof (intro allI impI)
  fix n msg evs
  assume d: "dispatch (Suc fuel) ch n msg = Some evs"
  show "\<exists>ps. distinct ps \<and> set ps = {p. \<exists>ev. node_leaf ch n msg p ev}
        \<and> list_all2 (node_leaf ch n msg) ps evs"
  proof (cases "nodes ch n")
    case None
    with d have "evs = []" by simp
    moreover have "{p. \<exists>ev. node_leaf ch n msg p ev} = {}"
      using None by (auto simp: node_leaf_iff)
    ultimately show ?thesis by simp
  next
    case (Some nd)
    let ?calls = "fst (nd msg)"
    let ?es = "\<lambda>i. the (tell_next fuel ch n (?calls ! i))"
    from Some d have g: "gather (map (tell_next fuel ch n) ?calls) = Some evs"
      by simp
    from gather_map_Some [OF g]
    have each: "\<forall>i<length ?calls. tell_next fuel ch n (?calls ! i) = Some (?es i)"
      and evs: "evs = concat (map ?es [0..<length ?calls])"
      by blast+
    have "\<forall>i<length ?calls. \<exists>qs. distinct qs \<and> set qs = {q. \<exists>ev. call_leaf ch n (?calls ! i) q ev}
        \<and> list_all2 (call_leaf ch n (?calls ! i)) qs (?es i)"
      using ok each tell_next_leaves by blast
    from enumerate_tagged [OF this] obtain ps where ps: "distinct ps"
      "set ps = {i # q | i q. i < length ?calls \<and> q \<in> {q. \<exists>ev. call_leaf ch n (?calls ! i) q ev}}"
      "list_all2 (\<lambda>p e. \<exists>i q. p = i # q \<and> i < length ?calls \<and> call_leaf ch n (?calls ! i) q e) ps
         (concat (map ?es [0..<length ?calls]))"
      by blast
    have s: "set ps = {p. \<exists>ev. node_leaf ch n msg p ev}"
      using ps(2) Some by (auto simp: node_leaf_iff)
    have up: "\<And>p e. \<exists>i q. p = i # q \<and> i < length ?calls \<and> call_leaf ch n (?calls ! i) q e
        \<Longrightarrow> node_leaf ch n msg p e"
      using Some by (auto simp: node_leaf_iff)
    have "list_all2 (node_leaf ch n msg) ps evs"
      unfolding evs using ps(3) up by (rule list_all2_mono)
    with ps(1) s show ?thesis by blast
  qed
qed

lemma dispatch_leaves: "leaves_ok ch fuel"
proof (induction fuel)
  case 0
  then show ?case by (simp add: leaves_ok_def)
next
  case (Suc fuel)
  then show ?case by (rule dispatch_leaves_step)
qed

lemma dispatch_returns:
  assumes rk: "\<forall>n rel. \<forall>t\<in>set (adjacency ch n rel). rank t < rank n"
  shows "rank n < fuel \<Longrightarrow> dispatch fuel ch n msg \<noteq> None"
proof (induction fuel arbitrary: n msg)
  case 0
  then show ?case by simp
next
  case (Suc fuel)
  show ?case
  proof (cases "nodes ch n")
    case None
    then show ?thesis by simp
  next
    case (Some nd)
    have "\<forall>call\<in>set (fst (nd msg)). tell_next fuel ch n call \<noteq> None"
    proof
      fix call
      assume "call \<in> set (fst (nd msg))"
      show "tell_next fuel ch n call \<noteq> None"
      proof (cases "adjacency ch n (tell_relation call)")
        case Nil
        then show ?thesis by simp
      next
        case (Cons t ts)
        have "\<forall>target\<in>set (t # ts). dispatch fuel ch target (tell_msg call) \<noteq> None"
        proof
          fix target
          assume "target \<in> set (t # ts)"
          with Cons rk have "rank target < rank n" by metis
          with Suc.prems have "rank target < fuel" by simp
          then show "dispatch fuel ch target (tell_msg call) \<noteq> None" by (rule Suc.IH)
        qed
        then have "gather (map (\<lambda>target. dispatch fuel ch target (tell_msg call)) (t # ts)) \<noteq> None"
          by (intro gather_all_Some) auto
        with Cons show ?thesis by simp
      qed
    qed
    then have "gather (map (tell_next fuel ch n) (fst (nd msg))) \<noteq> None"
      by (intro gather_all_Some) auto
    with Some show ?thesis by simp
  qed
qed

text \<open>
  C2. On a chain without cycles (its nodes can be numbered so that every edge leads to
  a smaller number), the dispatch of a message from a node returns, and it invokes the
  end-of-message callback once for every terminal leaf that the message reaches from
  that node, with the message and the error of that leaf: the invocations are, one for
  one, the leaves in an enumeration without repetition, and their number is the number
  of the leaves, not one for the input message. A fan-out to two leaves gives exactly
  two invocations.
\<close>

theorem OnEnd_once_per_leaf:
  assumes "\<forall>n rel. \<forall>t\<in>set (adjacency ch n rel). rank t < rank n" and "rank nodeId < fuel"
  shows "\<exists>evs ps. dispatch fuel ch nodeId msg = Some evs
     \<and> distinct ps \<and> set ps = {p. \<exists>ev. node_leaf ch nodeId msg p ev}
     \<and> list_all2 (node_leaf ch nodeId msg) ps evs
     \<and> length evs = card {p. \<exists>ev. node_leaf ch nodeId msg p ev}"
proof -
  from assms obtain evs where evs: "dispatch fuel ch nodeId msg = Some evs"
    using dispatch_returns by blast
  with dispatch_leaves [of ch fuel] obtain ps where ps: "distinct ps"
    "set ps = {p. \<exists>ev. node_leaf ch nodeId msg p ev}" "list_all2 (node_leaf ch nodeId msg) ps evs"
    unfolding leaves_ok_def by blast
  have "length evs = length ps"
    using ps(3) by (simp add: list_all2_lengthD)
  also have "\<dots> = card (set ps)"
    using ps(1) by (simp add: distinct_card)
  finally have "length evs = card {p. \<exists>ev. node_leaf ch nodeId msg p ev}"
    using ps(2) by simp
  with evs ps show ?thesis by blast
qed

theorem OnEnd_once_per_leaf_witness:
  "OnMsg_chain 3 deep_chain \<lparr>Data = ''x'', Metadata = []\<rparr>
      = Some [(\<lparr>Data = ''x-b'', Metadata = []\<rparr>, None),
              (\<lparr>Data = ''x-c-d'', Metadata = []\<rparr>, None),
              (\<lparr>Data = ''x-c-e'', Metadata = []\<rparr>, None)]
   \<and> card {p. \<exists>ev. node_leaf deep_chain ''A'' \<lparr>Data = ''x'', Metadata = []\<rparr> p ev} = 3
   \<and> OnMsg_chain 2 fan_out_chain \<lparr>Data = ''x'', Metadata = []\<rparr>
      = Some [(\<lparr>Data = ''x-b'', Metadata = []\<rparr>, None), (\<lparr>Data = ''x-c'', Metadata = []\<rparr>, None)]
   \<and> card {p. \<exists>ev. node_leaf fan_out_chain ''A'' \<lparr>Data = ''x'', Metadata = []\<rparr> p ev} = 2"
proof -
  have r1: "\<forall>n rel. \<forall>t\<in>set (adjacency deep_chain n rel). deep_rank t < deep_rank n"
    by (simp add: deep_chain_def deep_rank_def)
  have f1: "deep_rank ''A'' < 3"
    by (simp add: deep_rank_def)
  have r2: "\<forall>n rel. \<forall>t\<in>set (adjacency fan_out_chain n rel).
      (if t = ''A'' then 1 else 0 :: nat) < (if n = ''A'' then 1 else 0 :: nat)"
    by (simp add: fan_out_chain_def)
  have f2: "(if ''A'' = ''A'' then 1 else 0 :: nat) < 2"
    by simp
  have d1: "dispatch 3 deep_chain ''A'' \<lparr>Data = ''x'', Metadata = []\<rparr>
      = Some [(\<lparr>Data = ''x-b'', Metadata = []\<rparr>, None),
              (\<lparr>Data = ''x-c-d'', Metadata = []\<rparr>, None),
              (\<lparr>Data = ''x-c-e'', Metadata = []\<rparr>, None)]"
    by code_simp
  have d2: "dispatch 2 fan_out_chain ''A'' \<lparr>Data = ''x'', Metadata = []\<rparr>
      = Some [(\<lparr>Data = ''x-b'', Metadata = []\<rparr>, None), (\<lparr>Data = ''x-c'', Metadata = []\<rparr>, None)]"
    by code_simp
  have root: "root deep_chain = ''A''" "root fan_out_chain = ''A''"
    by (simp_all add: deep_chain_def fan_out_chain_def)
  show ?thesis
    using OnEnd_once_per_leaf [OF r1 f1, of "\<lparr>Data = ''x'', Metadata = []\<rparr>"]
      OnEnd_once_per_leaf [OF r2 f2, of "\<lparr>Data = ''x'', Metadata = []\<rparr>"] d1 d2 root
    by (auto simp: OnMsg_chain_def)
qed

section \<open>Properties of the worker pool\<close>

lemma pool_step_bound: "length (running s) \<le> cap \<Longrightarrow> length (running (pool_step cap s e)) \<le> cap"
proof (cases e)
  case (Submit t)
  assume "length (running s) \<le> cap"
  with Submit show ?thesis by simp
next
  case (Complete t)
  assume "length (running s) \<le> cap"
  with Complete show ?thesis
    by (auto simp: Let_def length_remove1 split: list.splits)
qed

lemma foldl_pool_bound:
  "length (running s) \<le> cap \<Longrightarrow> length (running (foldl (pool_step cap) s evs)) \<le> cap"
  by (induction evs arbitrary: s) (auto simp: pool_step_bound)

lemma foldl_submits:
  "foldl (pool_step cap) s (map Submit ts) =
     \<lparr>running = running s @ take (cap - length (running s)) ts,
      queued = queued s @ drop (cap - length (running s)) ts\<rparr>"
proof (induction ts arbitrary: s)
  case Nil
  then show ?case by simp
next
  case (Cons t ts)
  show ?case
  proof (cases "length (running s) < cap")
    case True
    then obtain m where m: "cap - length (running s) = Suc m"
      by (metis Suc_diff_Suc)
    then have m': "cap - Suc (length (running s)) = m" by simp
    show ?thesis using True by (simp add: Cons m m')
  next
    case False
    then show ?thesis by (simp add: Cons)
  qed
qed

lemma pool_step_full:
  "length (running s) = cap \<Longrightarrow> (\<forall>t\<in>set (running s). e \<noteq> Complete t) \<Longrightarrow>
   running (pool_step cap s e) = running s"
  by (cases e) auto

lemma foldl_pool_full:
  "length (running s) = cap \<Longrightarrow> \<forall>t\<in>set (running s). Complete t \<notin> set later \<Longrightarrow>
   running (foldl (pool_step cap) s later) = running s"
proof (induction later arbitrary: s)
  case Nil
  then show ?case by simp
next
  case (Cons e later)
  have step: "running (pool_step cap s e) = running s"
    using Cons.prems by (intro pool_step_full) auto
  then have "running (foldl (pool_step cap) (pool_step cap s e) later) = running (pool_step cap s e)"
    using Cons.prems by (intro Cons.IH) auto
  with step show ?case by simp
qed

text \<open>
  C7. In a pool with capacity \<open>cap\<close>, at most \<open>cap\<close> tasks are running after any
  sequence of events. After \<open>cap + 1\<close> distinct tasks have been submitted, the first
  \<open>cap\<close> of them are running, and the last one is not running after any further events
  among which none of the first \<open>cap\<close> tasks completes.
\<close>

theorem pool_capacity:
  assumes "distinct ts" and "length ts = Suc cap"
    and "\<forall>t\<in>set (take cap ts). Complete t \<notin> set later"
  shows "length (running (pool_run cap evs)) \<le> cap
     \<and> running (pool_run cap (map Submit ts)) = take cap ts
     \<and> ts ! cap \<notin> set (running (pool_run cap (map Submit ts @ later)))"
proof -
  have bound: "length (running (pool_run cap evs)) \<le> cap"
    by (simp add: pool_run_def foldl_pool_bound)
  let ?s = "pool_run cap (map Submit ts)"
  have s: "running ?s = take cap ts"
    by (simp add: pool_run_def foldl_submits)
  have "running (foldl (pool_step cap) ?s later) = running ?s"
    using assms(2,3) s by (intro foldl_pool_full) auto
  then have r: "running (pool_run cap (map Submit ts @ later)) = take cap ts"
    using s by (simp add: pool_run_def)
  have "ts ! cap \<notin> set (take cap ts)"
  proof
    assume "ts ! cap \<in> set (take cap ts)"
    then obtain i where i: "i < cap" "take cap ts ! i = ts ! cap"
      using assms(2) by (auto simp: in_set_conv_nth)
    then have "ts ! i = ts ! cap" by simp
    with i(1) assms(1,2) show False
      by (simp add: nth_eq_iff_index_eq)
  qed
  with bound s r show ?thesis by simp
qed

theorem pool_capacity_witness:
  "distinct [1, 2, 3 :: nat] \<and> length [1, 2, 3 :: nat] = Suc 2
   \<and> Complete 1 \<notin> set [Submit 4, Complete 3] \<and> Complete 2 \<notin> set [Submit 4, Complete 3]
   \<and> running (pool_run 2 (map Submit [1, 2, 3])) = [1, 2]
   \<and> [1, 2, 3 :: nat] ! 2 \<notin> set (running (pool_run 2 (map Submit [1, 2, 3] @ [Submit 4, Complete 3])))
   \<and> length (running (pool_run 2 [Submit 1, Submit 2, Submit 3, Complete 1, Submit 4])) \<le> 2"
proof -
  have h1: "distinct [1, 2, 3 :: nat]" by simp
  have h2: "length [1, 2, 3 :: nat] = Suc 2" by simp
  have h3: "\<forall>t\<in>set (take 2 [1, 2, 3 :: nat]). Complete t \<notin> set [Submit 4, Complete 3]"
    by (simp add: numeral_2_eq_2)
  show ?thesis
    using pool_capacity [OF h1 h2 h3, of "[Submit 1, Submit 2, Submit 3, Complete 1, Submit 4]"] h1 h3
    by (simp add: numeral_2_eq_2)
qed

end
